theory Spec2Isabelle
  imports Main "HOL-Library.Word" "HOL-Library.Signed_Division" "HOL-Library.Multiset"
begin

section \<open>Data model (framework/internal/interface.hpp)\<close>

text \<open>
  \<^verbatim>\<open>point_t\<close> has two \<^verbatim>\<open>std::int64_t\<close> coordinates; the assignment type \<^verbatim>\<open>ASGN\<close> is
  \<^verbatim>\<open>std::uint8_t\<close>; counts and container sizes are \<^verbatim>\<open>std::size_t\<close> (64 bits).
  Fixed-width arithmetic is two's complement: \<open>+\<close>, \<open>-\<close> and \<open>*\<close> on words wrap. (C++
  leaves the overflow of a signed operation undefined; the model takes what the hardware
  does.)
  Indices, \<^verbatim>\<open>k\<close> and \<^verbatim>\<open>iters\<close> are natural numbers.
\<close>

type_synonym coord_t = "64 word"
type_synonym asgn_t = "8 word"
type_synonym size_t = "64 word"

record point_t =
  x :: coord_t
  y :: coord_t

text \<open>
  The engines check nothing. An access outside a vector is undefined behaviour in the
  source; the model stops there with the vector that was overrun.
\<close>

datatype fault = PointsOutOfRange | CentroidsOutOfRange | StorageOutOfRange

definition and_then :: "fault + 'a \<Rightarrow> ('a \<Rightarrow> fault + 'b) \<Rightarrow> fault + 'b" where
  "and_then r f = (case r of Inl e \<Rightarrow> Inl e | Inr v \<Rightarrow> f v)"

text \<open>A counted \<^verbatim>\<open>for\<close> loop: the body runs on each index of the list in turn and the
  first fault ends the loop.\<close>

primrec for_each :: "nat list \<Rightarrow> (nat \<Rightarrow> 's \<Rightarrow> fault + 's) \<Rightarrow> 's \<Rightarrow> fault + 's" where
  "for_each [] body s = Inr s"
| "for_each (i # is) body s = and_then (body i s) (for_each is body)"

text \<open>\<^verbatim>\<open>std::vector::resize(n)\<close>: the first \<open>n\<close> elements are kept, new elements are
  value-initialised.\<close>

definition resize :: "nat \<Rightarrow> 'a \<Rightarrow> 'a list \<Rightarrow> 'a list" where
  "resize n d xs = take n xs @ replicate (n - length xs) d"

definition origin :: point_t where
  "origin = \<lparr>x = 0, y = 0\<rparr>"

text \<open>Division of two \<^verbatim>\<open>std::int64_t\<close> values truncates towards zero.\<close>

definition int64_div :: "coord_t \<Rightarrow> coord_t \<Rightarrow> coord_t" where
  "int64_div a b = word_of_int (sint a sdiv sint b)"

section \<open>Distance and nearest-centroid search (both engines, same text)\<close>

text \<open>
  \<^verbatim>\<open>coord_t\<close> is already 64 bits wide, so the casts to \<^verbatim>\<open>std::int64_t\<close> change nothing:
  the differences, the squares and their sum are 64-bit values.
\<close>

definition distance :: "point_t \<Rightarrow> point_t \<Rightarrow> coord_t" where
  "distance point centroid =
     (let dx = x point - x centroid;
          dy = y point - y centroid
      in dx * dx + dy * dy)"

text \<open>One pass of the search loop at index \<open>i\<close>; \<open>dist < minDist\<close> compares signed values.\<close>

definition nearest_step :: "point_t \<Rightarrow> point_t list \<Rightarrow> nat \<Rightarrow> coord_t \<times> nat \<Rightarrow> coord_t \<times> nat" where
  "nearest_step point centroids i = (\<lambda>(minDist, nearest).
     let dist = distance point (centroids ! i)
     in if dist <s minDist then (dist, i) else (minDist, nearest))"

definition getNearestCluster :: "point_t \<Rightarrow> point_t list \<Rightarrow> fault + nat" where
  "getNearestCluster point centroids =
     (if centroids = [] then Inl CentroidsOutOfRange
      else Inr (snd (fold (nearest_step point centroids) [1 ..< length centroids]
                       (distance point (centroids ! 0), 0))))"

text \<open>The seeding loop of \<^verbatim>\<open>compute\<close>: \<^verbatim>\<open>centroids[i] = points[i]\<close>.\<close>

definition seed_body :: "point_t list \<Rightarrow> nat \<Rightarrow> point_t list \<Rightarrow> fault + point_t list" where
  "seed_body points i centroids =
     (if i < length points then Inr (centroids[i := points ! i]) else Inl PointsOutOfRange)"

section \<open>Sequential engine (serial/implementation.hpp)\<close>

record serial_KMeans =
  sums :: "point_t list"
  counts :: "size_t list"

definition serial_init :: "serial_KMeans \<Rightarrow> nat \<Rightarrow> nat \<Rightarrow> nat \<Rightarrow> serial_KMeans" where
  "serial_init e points k iters =
     e\<lparr>sums := resize k origin (sums e), counts := resize k 0 (counts e)\<rparr>"

definition serial_clear_body :: "nat \<Rightarrow> serial_KMeans \<Rightarrow> fault + serial_KMeans" where
  "serial_clear_body i e =
     (if i < length (sums e) \<and> i < length (counts e)
      then Inr (e\<lparr>sums := (sums e)[i := (sums e ! i)\<lparr>x := 0, y := 0\<rparr>],
                  counts := (counts e)[i := 0]\<rparr>)
      else Inl StorageOutOfRange)"

definition serial_assign_body ::
  "point_t list \<Rightarrow> point_t list \<Rightarrow> nat \<Rightarrow> serial_KMeans \<times> asgn_t list
     \<Rightarrow> fault + serial_KMeans \<times> asgn_t list" where
  "serial_assign_body points centroids i = (\<lambda>(e, assignments).
     and_then (getNearestCluster (points ! i) centroids) (\<lambda>nearest.
       if nearest < length (sums e) \<and> nearest < length (counts e)
       then Inr (e\<lparr>sums := (sums e)[nearest := (sums e ! nearest)
                                \<lparr>x := x (sums e ! nearest) + x (points ! i),
                                 y := y (sums e ! nearest) + y (points ! i)\<rparr>],
                    counts := (counts e)[nearest := counts e ! nearest + 1]\<rparr>,
                 assignments[i := word_of_nat nearest])
       else Inl StorageOutOfRange))"

definition serial_update_body :: "serial_KMeans \<Rightarrow> nat \<Rightarrow> point_t list \<Rightarrow> fault + point_t list" where
  "serial_update_body e i centroids =
     (if i < length (counts e)
      then if counts e ! i = 0 then Inr centroids
           else if i < length (sums e)
           then Inr (centroids[i := (centroids ! i)
                        \<lparr>x := int64_div (x (sums e ! i)) (counts e ! i),
                         y := int64_div (y (sums e ! i)) (counts e ! i)\<rparr>])
           else Inl StorageOutOfRange
      else Inl StorageOutOfRange)"

text \<open>One pass of the \<^verbatim>\<open>while (iters > 0)\<close> loop.\<close>

definition serial_iteration ::
  "point_t list \<Rightarrow> nat \<Rightarrow> serial_KMeans \<times> point_t list \<times> asgn_t list
     \<Rightarrow> fault + serial_KMeans \<times> point_t list \<times> asgn_t list" where
  "serial_iteration points k = (\<lambda>(e, centroids, assignments).
     and_then (for_each [0 ..< k] serial_clear_body e) (\<lambda>e.
     and_then (for_each [0 ..< length points] (serial_assign_body points centroids)
                 (e, assignments)) (\<lambda>(e, assignments).
     and_then (for_each [0 ..< k] (serial_update_body e) centroids) (\<lambda>centroids.
     Inr (e, centroids, assignments)))))"

primrec serial_refine ::
  "point_t list \<Rightarrow> nat \<Rightarrow> nat \<Rightarrow> serial_KMeans \<times> point_t list \<times> asgn_t list
     \<Rightarrow> fault + serial_KMeans \<times> point_t list \<times> asgn_t list" where
  "serial_refine points k 0 st = Inr st"
| "serial_refine points k (Suc iters) st =
     and_then (serial_iteration points k st) (serial_refine points k iters)"

text \<open>\<^verbatim>\<open>centroids\<close> and \<^verbatim>\<open>assignments\<close> are reference parameters: the vectors the caller
  passes in are resized, and the engine, the centroids and the assignments come back.\<close>

definition serial_compute ::
  "serial_KMeans \<Rightarrow> point_t list \<Rightarrow> nat \<Rightarrow> nat \<Rightarrow> point_t list \<Rightarrow> asgn_t list
     \<Rightarrow> fault + serial_KMeans \<times> point_t list \<times> asgn_t list" where
  "serial_compute e points k iters centroids assignments =
     and_then (for_each [0 ..< k] (seed_body points) (resize k origin centroids)) (\<lambda>centroids.
     serial_refine points k iters (e, centroids, resize (length points) 0 assignments))"

section \<open>Concurrent engine (framework/implementation.hpp)\<close>

record framework_KMeans =
  temp_assignments :: "point_t list list"
  POINTS_SIZE :: nat

text \<open>\<^verbatim>\<open>init\<close> pushes \<open>k\<close> empty vectors onto \<^verbatim>\<open>temp_assignments\<close>.\<close>

definition framework_init :: "framework_KMeans \<Rightarrow> nat \<Rightarrow> nat \<Rightarrow> nat \<Rightarrow> framework_KMeans" where
  "framework_init e points k iters =
     e\<lparr>POINTS_SIZE := points, temp_assignments := temp_assignments e @ replicate k []\<rparr>"

text \<open>
  What the worker pool decides is a parameter of the model. \<^verbatim>\<open>tbb::parallel_for\<close> runs its
  body once for every index of the range, chunk by chunk on any worker; the bodies write
  their own slot of \<^verbatim>\<open>assignments\<close> or \<^verbatim>\<open>centroids\<close> and append to a
  \<^verbatim>\<open>tbb::concurrent_vector\<close>, so a run of a phase is the bodies of the range taking effect
  in some order: the body of index \<open>perm i\<close> is the \<open>i\<close>-th to take effect. A schedule
  names the order of each phase (\<open>assign_perm\<close>, \<open>update_perm\<close>), and it is valid when
  these permute the range.
  \<^verbatim>\<open>tbb::parallel_reduce\<close> cuts its range where it likes: \<open>Whole\<close> runs the body over the range
  with the value it holds, \<open>Split n\<close> hands the part from position \<open>n\<close> on to a fresh body
  that starts from the identity and joins the two results, \<open>Chain n\<close> runs the same body
  over both parts one after the other.
\<close>

definition parallel_for ::
  "(nat \<Rightarrow> nat) \<Rightarrow> nat \<Rightarrow> nat \<Rightarrow> (nat \<Rightarrow> 's \<Rightarrow> fault + 's) \<Rightarrow> 's \<Rightarrow> fault + 's" where
  "parallel_for perm lo hi body = for_each (map perm [lo ..< hi]) body"

datatype shape = Whole | Split nat shape shape | Chain nat shape shape

record schedule =
  assign_perm :: "nat \<Rightarrow> nat"
  update_perm :: "nat \<Rightarrow> nat"
  reduce_shape :: "nat \<Rightarrow> shape"

definition valid_schedule :: "nat \<Rightarrow> nat \<Rightarrow> schedule \<Rightarrow> bool" where
  "valid_schedule n k s \<longleftrightarrow>
     mset (map (assign_perm s) [0 ..< n]) = mset [0 ..< n] \<and>
     mset (map (update_perm s) [0 ..< k]) = mset [0 ..< k]"

definition reduce_body :: "point_t list \<Rightarrow> point_t \<Rightarrow> point_t" where
  "reduce_body members p = fold (\<lambda>m p. p\<lparr>x := x p + x m, y := y p + y m\<rparr>) members p"

definition reduce_join :: "point_t \<Rightarrow> point_t \<Rightarrow> point_t" where
  "reduce_join f s = f\<lparr>x := x f + x s, y := y f + y s\<rparr>"

fun parallel_reduce :: "shape \<Rightarrow> point_t list \<Rightarrow> point_t \<Rightarrow> point_t \<Rightarrow> point_t" where
  "parallel_reduce Whole members identity p = reduce_body members p"
| "parallel_reduce (Split n l r) members identity p =
     reduce_join (parallel_reduce l (take n members) identity p)
                 (parallel_reduce r (drop n members) identity identity)"
| "parallel_reduce (Chain n l r) members identity p =
     parallel_reduce r (drop n members) identity (parallel_reduce l (take n members) identity p)"

definition framework_clear_body :: "nat \<Rightarrow> framework_KMeans \<Rightarrow> fault + framework_KMeans" where
  "framework_clear_body i e =
     (if i < length (temp_assignments e)
      then Inr (e\<lparr>temp_assignments := (temp_assignments e)[i := []]\<rparr>)
      else Inl StorageOutOfRange)"

text \<open>The body of the first \<^verbatim>\<open>parallel_for\<close>; \<open>iters\<close> is the counter after \<^verbatim>\<open>--iters\<close>.
  The accumulator is indexed with the index cast to \<^verbatim>\<open>ASGN\<close>.\<close>

definition framework_assign_body ::
  "point_t list \<Rightarrow> point_t list \<Rightarrow> nat \<Rightarrow> nat \<Rightarrow> framework_KMeans \<times> asgn_t list
     \<Rightarrow> fault + framework_KMeans \<times> asgn_t list" where
  "framework_assign_body points centroids iters i = (\<lambda>(e, assignments).
     if i < length points
     then and_then (getNearestCluster (points ! i) centroids) (\<lambda>nearest.
       let assignments = (if iters = 0 then assignments[i := word_of_nat nearest] else assignments);
           c = unat (word_of_nat nearest :: asgn_t)
       in if c < length (temp_assignments e)
          then Inr (e\<lparr>temp_assignments :=
                        (temp_assignments e)[c := temp_assignments e ! c @ [points ! i]]\<rparr>,
                    assignments)
          else Inl StorageOutOfRange)
     else Inl PointsOutOfRange)"

text \<open>The body of the second \<^verbatim>\<open>parallel_for\<close>.\<close>

definition framework_update_body ::
  "framework_KMeans \<Rightarrow> (nat \<Rightarrow> shape) \<Rightarrow> nat \<Rightarrow> point_t list \<Rightarrow> fault + point_t list" where
  "framework_update_body e shapes i centroids =
     (if i < length (temp_assignments e)
      then let cluster_size = (word_of_nat (length (temp_assignments e ! i)) :: size_t)
           in if cluster_size = 0 then Inr centroids
              else let result = parallel_reduce (shapes i) (temp_assignments e ! i) origin origin
                   in Inr (centroids[i := (centroids ! i)
                             \<lparr>x := int64_div (x result) cluster_size,
                              y := int64_div (y result) cluster_size\<rparr>])
      else Inl StorageOutOfRange)"

definition framework_iteration ::
  "point_t list \<Rightarrow> nat \<Rightarrow> nat \<Rightarrow> schedule \<Rightarrow> framework_KMeans \<times> point_t list \<times> asgn_t list
     \<Rightarrow> fault + framework_KMeans \<times> point_t list \<times> asgn_t list" where
  "framework_iteration points k iters s = (\<lambda>(e, centroids, assignments).
     and_then (for_each [0 ..< k] framework_clear_body e) (\<lambda>e.
     and_then (parallel_for (assign_perm s) 0 (POINTS_SIZE e)
                 (framework_assign_body points centroids iters) (e, assignments))
       (\<lambda>(e, assignments).
     and_then (parallel_for (update_perm s) 0 k
                 (framework_update_body e (reduce_shape s)) centroids)
       (\<lambda>centroids.
     Inr (e, centroids, assignments)))))"

text \<open>The pass that leaves \<open>iters\<close> passes to go runs under the schedule \<open>sched iters\<close>.\<close>

primrec framework_refine ::
  "point_t list \<Rightarrow> nat \<Rightarrow> (nat \<Rightarrow> schedule) \<Rightarrow> nat
     \<Rightarrow> framework_KMeans \<times> point_t list \<times> asgn_t list
     \<Rightarrow> fault + framework_KMeans \<times> point_t list \<times> asgn_t list" where
  "framework_refine points k sched 0 st = Inr st"
| "framework_refine points k sched (Suc iters) st =
     and_then (framework_iteration points k iters (sched iters) st)
              (framework_refine points k sched iters)"

definition framework_compute ::
  "(nat \<Rightarrow> schedule) \<Rightarrow> framework_KMeans \<Rightarrow> point_t list \<Rightarrow> nat \<Rightarrow> nat \<Rightarrow> point_t list
     \<Rightarrow> asgn_t list \<Rightarrow> fault + framework_KMeans \<times> point_t list \<times> asgn_t list" where
  "framework_compute sched e points k iters centroids assignments =
     and_then (for_each [0 ..< k] (seed_body points) (resize k origin centroids)) (\<lambda>centroids.
     framework_refine points k sched iters (e, centroids, resize (length points) 0 assignments))"

section \<open>Concurrent engine, reading on past the end of \<open>points\<close>\<close>

text \<open>
  \<^verbatim>\<open>compute\<close> never compares an index with \<^verbatim>\<open>points.size()\<close>. Where the definitions above stop
  at an index past the end of \<^verbatim>\<open>points\<close>, the definitions below read on, as the code does:
  \<^verbatim>\<open>points[i]\<close> at such an index is what lies behind the buffer, the parameter \<open>beyond\<close>, and
  the index is put on record in \<open>overruns\<close>. \<^verbatim>\<open>assignments[i]\<close> at such an index writes behind
  the buffer of \<^verbatim>\<open>assignments\<close>: the elements of the vector stay as they are (a list update
  out of range), and what the write destroys is not modelled. Everything else is the text
  of the definitions above.
\<close>

definition read_unchecked :: "(nat \<Rightarrow> point_t) \<Rightarrow> point_t list \<Rightarrow> nat \<Rightarrow> point_t" where
  "read_unchecked beyond points i = (if i < length points then points ! i else beyond i)"

definition note_overrun :: "point_t list \<Rightarrow> nat \<Rightarrow> nat list \<Rightarrow> nat list" where
  "note_overrun points i overruns = (if i < length points then overruns else overruns @ [i])"

definition seed_body_unchecked ::
  "(nat \<Rightarrow> point_t) \<Rightarrow> point_t list \<Rightarrow> nat \<Rightarrow> point_t list \<times> nat list
     \<Rightarrow> fault + point_t list \<times> nat list" where
  "seed_body_unchecked beyond points i = (\<lambda>(centroids, overruns).
     Inr (centroids[i := read_unchecked beyond points i], note_overrun points i overruns))"

definition framework_assign_body_unchecked ::
  "(nat \<Rightarrow> point_t) \<Rightarrow> point_t list \<Rightarrow> point_t list \<Rightarrow> nat \<Rightarrow> nat
     \<Rightarrow> framework_KMeans \<times> asgn_t list \<times> nat list
     \<Rightarrow> fault + framework_KMeans \<times> asgn_t list \<times> nat list" where
  "framework_assign_body_unchecked beyond points centroids iters i = (\<lambda>(e, assignments, overruns).
     let point = read_unchecked beyond points i;
         overruns = note_overrun points i overruns
     in and_then (getNearestCluster point centroids) (\<lambda>nearest.
       let assignments = (if iters = 0 then assignments[i := word_of_nat nearest] else assignments);
           c = unat (word_of_nat nearest :: asgn_t)
       in if c < length (temp_assignments e)
          then Inr (e\<lparr>temp_assignments :=
                        (temp_assignments e)[c := temp_assignments e ! c @ [point]]\<rparr>,
                    assignments, overruns)
          else Inl StorageOutOfRange))"

definition framework_iteration_unchecked ::
  "(nat \<Rightarrow> point_t) \<Rightarrow> point_t list \<Rightarrow> nat \<Rightarrow> nat \<Rightarrow> schedule
     \<Rightarrow> framework_KMeans \<times> point_t list \<times> asgn_t list \<times> nat list
     \<Rightarrow> fault + framework_KMeans \<times> point_t list \<times> asgn_t list \<times> nat list" where
  "framework_iteration_unchecked beyond points k iters s = (\<lambda>(e, centroids, assignments, overruns).
     and_then (for_each [0 ..< k] framework_clear_body e) (\<lambda>e.
     and_then (parallel_for (assign_perm s) 0 (POINTS_SIZE e)
                 (framework_assign_body_unchecked beyond points centroids iters)
                 (e, assignments, overruns))
       (\<lambda>(e, assignments, overruns).
     and_then (parallel_for (update_perm s) 0 k
                 (framework_update_body e (reduce_shape s)) centroids)
       (\<lambda>centroids.
     Inr (e, centroids, assignments, overruns)))))"

primrec framework_refine_unchecked ::
  "(nat \<Rightarrow> point_t) \<Rightarrow> point_t list \<Rightarrow> nat \<Rightarrow> (nat \<Rightarrow> schedule) \<Rightarrow> nat
     \<Rightarrow> framework_KMeans \<times> point_t list \<times> asgn_t list \<times> nat list
     \<Rightarrow> fault + framework_KMeans \<times> point_t list \<times> asgn_t list \<times> nat list" where
  "framework_refine_unchecked beyond points k sched 0 st = Inr st"
| "framework_refine_unchecked beyond points k sched (Suc iters) st =
     and_then (framework_iteration_unchecked beyond points k iters (sched iters) st)
              (framework_refine_unchecked beyond points k sched iters)"

definition framework_compute_unchecked ::
  "(nat \<Rightarrow> point_t) \<Rightarrow> (nat \<Rightarrow> schedule) \<Rightarrow> framework_KMeans \<Rightarrow> point_t list \<Rightarrow> nat \<Rightarrow> nat
     \<Rightarrow> point_t list \<Rightarrow> asgn_t list
     \<Rightarrow> fault + framework_KMeans \<times> point_t list \<times> asgn_t list \<times> nat list" where
  "framework_compute_unchecked beyond sched e points k iters centroids assignments =
     and_then (for_each [0 ..< k] (seed_body_unchecked beyond points) (resize k origin centroids, []))
       (\<lambda>(centroids, overruns).
     framework_refine_unchecked beyond points k sched iters
       (e, centroids, resize (length points) 0 assignments, overruns))"

section \<open>Harness (framework/k-means.cpp)\<close>

text \<open>
  \<^verbatim>\<open>runKmeans\<close> builds an engine, calls \<^verbatim>\<open>init\<close>, hands empty result vectors to \<^verbatim>\<open>compute\<close>
  and throws a \<^verbatim>\<open>RuntimeError\<close> (\<open>None\<close>) when a result has the wrong size. The constructor
  leaves \<^verbatim>\<open>POINTS_SIZE\<close> uninitialised: its value before \<^verbatim>\<open>init\<close> is the parameter \<open>p0\<close>.
\<close>

definition runKmeans ::
  "(nat \<Rightarrow> schedule) \<Rightarrow> nat \<Rightarrow> point_t list \<Rightarrow> nat \<Rightarrow> nat
     \<Rightarrow> fault + (point_t list \<times> asgn_t list) option" where
  "runKmeans sched p0 points k iters =
     (let kMeans = framework_init \<lparr>temp_assignments = [], POINTS_SIZE = p0\<rparr> (length points) k iters
      in and_then (framework_compute sched kMeans points k iters [] [])
           (\<lambda>(kMeans, centroids, assignments).
              if length centroids \<noteq> k then Inr None
              else if length assignments \<noteq> length points then Inr None
              else Inr (Some (centroids, assignments))))"

text \<open>
  \<^verbatim>\<open>main\<close> after the arguments are read: \<open>k\<close> and \<open>iters\<close> are what \<^verbatim>\<open>getNumArg\<close> returns
  (0 for a malformed number), \<open>points\<close> is the content of the points file. Bad arguments
  print the usage text and return 0; an exception prints \<^verbatim>\<open>FAILED\<close> and returns 2; otherwise
  the centroids and the assignments are saved.
\<close>

datatype outcome = Usage | Failed | Saved "point_t list" "asgn_t list"

definition kmeans_main ::
  "(nat \<Rightarrow> schedule) \<Rightarrow> nat \<Rightarrow> point_t list \<Rightarrow> nat \<Rightarrow> nat \<Rightarrow> fault + outcome" where
  "kmeans_main sched p0 points k iters =
     (if k = 0 \<or> iters = 0 \<or> k > 256 \<or> iters > 1000 then Inr Usage
      else and_then (runKmeans sched p0 points k iters)
             (\<lambda>r. case r of None \<Rightarrow> Inr Failed
                   | Some (centroids, assignments) \<Rightarrow> Inr (Saved centroids assignments)))"

section \<open>Notions the statements and proofs use\<close>

text \<open>The index \<^verbatim>\<open>getNearestCluster\<close> returns when the list of centroids is not empty.\<close>
definition nearest_index :: "point_t \<Rightarrow> point_t list \<Rightarrow> nat" where
  "nearest_index p cs =
     snd (fold (nearest_step p cs) [1 ..< length cs] (distance p (cs ! 0), 0))"

text \<open>The invariant of the search loop once the indices below \<open>m\<close> are done: \<open>d\<close> is the
  distance of centroid \<open>n\<close>, no centroid below \<open>m\<close> has a smaller one and none below \<open>n\<close>
  has one as small.\<close>
definition scan_ok :: "point_t \<Rightarrow> point_t list \<Rightarrow> nat \<Rightarrow> coord_t \<times> nat \<Rightarrow> bool" where
  "scan_ok p cs m = (\<lambda>(d, n). n < m \<and> d = distance p (cs ! n)
     \<and> (\<forall>j < m. d \<le>s distance p (cs ! j)) \<and> (\<forall>j < n. d <s distance p (cs ! j)))"

text \<open>Coordinates of 31 bits: their differences, the squares and the sum of two squares
  fit 64 bits, so the distance is the squared Euclidean distance of the integers.\<close>
definition coord_ok :: "coord_t \<Rightarrow> bool" where
  "coord_ok v \<longleftrightarrow> - (2 ^ 30) \<le> sint v \<and> sint v < 2 ^ 30"

definition point_ok :: "point_t \<Rightarrow> bool" where
  "point_ok p \<longleftrightarrow> coord_ok (x p) \<and> coord_ok (y p)"

definition sq_euclid :: "point_t \<Rightarrow> point_t \<Rightarrow> int" where
  "sq_euclid p c = (sint (x p) - sint (x c)) ^ 2 + (sint (y p) - sint (y c)) ^ 2"

text \<open>
  One pass as a function of the centroids it starts from: \<open>members\<close> are the indices of
  the points nearest to centroid \<open>c\<close>, in input order; \<open>mean_of\<close> is the centroid the
  update loop leaves for member indices \<open>ms\<close> (the old one when the count is zero);
  \<open>next_centroids\<close> and \<open>next_assignments\<close> are the centroids and the assignments after
  the pass. The lemmas \<open>serial_iteration_char\<close> and \<open>framework_iteration_char\<close> prove that
  this is what a pass of either engine returns.
\<close>
definition members :: "point_t list \<Rightarrow> point_t list \<Rightarrow> nat \<Rightarrow> nat list" where
  "members points cs c = filter (\<lambda>i. nearest_index (points ! i) cs = c) [0 ..< length points]"

definition coord_sum :: "(point_t \<Rightarrow> coord_t) \<Rightarrow> point_t list \<Rightarrow> nat list \<Rightarrow> coord_t" where
  "coord_sum f points ms = sum_list (map (\<lambda>i. f (points ! i)) ms)"

definition mean_of :: "point_t list \<Rightarrow> nat list \<Rightarrow> point_t \<Rightarrow> point_t" where
  "mean_of points ms old =
     (if (word_of_nat (length ms) :: size_t) = 0 then old
      else \<lparr>x = int64_div (coord_sum x points ms) (word_of_nat (length ms)),
            y = int64_div (coord_sum y points ms) (word_of_nat (length ms))\<rparr>)"

definition next_centroids :: "point_t list \<Rightarrow> point_t list \<Rightarrow> point_t list" where
  "next_centroids points cs =
     map (\<lambda>c. mean_of points (members points cs c) (cs ! c)) [0 ..< length cs]"

definition next_assignments :: "point_t list \<Rightarrow> point_t list \<Rightarrow> asgn_t list" where
  "next_assignments points cs =
     map (\<lambda>i. word_of_nat (nearest_index (points ! i) cs)) [0 ..< length points]"

text \<open>The members of cluster \<open>c\<close> among the indices \<open>pre\<close> the assignment loop has done.\<close>
definition assigned :: "point_t list \<Rightarrow> point_t list \<Rightarrow> nat \<Rightarrow> nat list \<Rightarrow> nat list" where
  "assigned points cs c pre = filter (\<lambda>i. nearest_index (points ! i) cs = c) pre"

text \<open>The centroids and the assignments after \<open>m\<close> passes from the seeds; before the
  first pass the assignments are the vector \<open>compute\<close> resized.\<close>
definition centroids_after :: "point_t list \<Rightarrow> nat \<Rightarrow> nat \<Rightarrow> point_t list" where
  "centroids_after points k m = (next_centroids points ^^ m) (take k points)"

definition assignments_after :: "point_t list \<Rightarrow> nat \<Rightarrow> nat \<Rightarrow> asgn_t list \<Rightarrow> asgn_t list" where
  "assignments_after points k m asg =
     (case m of 0 \<Rightarrow> asg | Suc j \<Rightarrow> next_assignments points (centroids_after points k j))"

text \<open>The four points of the scenario of the specification.\<close>
definition scenario_points :: "point_t list" where
  "scenario_points = [\<lparr>x = 0, y = 0\<rparr>, \<lparr>x = 10, y = 0\<rparr>, \<lparr>x = 0, y = 10\<rparr>, \<lparr>x = 10, y = 10\<rparr>]"

text \<open>A schedule that runs both loops from the last index down and cuts every reduction
  after its first element.\<close>
definition backwards :: "nat \<Rightarrow> nat \<Rightarrow> schedule" where
  "backwards n k = \<lparr>assign_perm = (\<lambda>i. n - 1 - i), update_perm = (\<lambda>i. k - 1 - i),
     reduce_shape = (\<lambda>c. Split 1 Whole Whole)\<rparr>"

text \<open>The indices a returned assignment vector gives to cluster \<open>c\<close>.\<close>
definition assigned_to :: "asgn_t list \<Rightarrow> nat \<Rightarrow> nat list" where
  "assigned_to assignments c =
     filter (\<lambda>i. unat (assignments ! i) = c) [0 ..< length assignments]"

text \<open>The integers an \<^verbatim>\<open>std::int64_t\<close> holds.\<close>
definition int64_range :: "int \<Rightarrow> bool" where
  "int64_range v \<longleftrightarrow> - (2 ^ 63) \<le> v \<and> v < 2 ^ 63"

text \<open>What \<open>init\<close> with matching arguments establishes and \<open>compute\<close> keeps.\<close>
definition serial_ready :: "nat \<Rightarrow> serial_KMeans \<Rightarrow> bool" where
  "serial_ready k e \<longleftrightarrow> k \<le> length (sums e) \<and> k \<le> length (counts e)"

definition framework_ready :: "nat \<Rightarrow> nat \<Rightarrow> framework_KMeans \<Rightarrow> bool" where
  "framework_ready n k e \<longleftrightarrow> k \<le> length (temp_assignments e) \<and> POINTS_SIZE e = n"

text \<open>Two points at the same place.\<close>
definition twin_points :: "point_t list" where
  "twin_points = [\<lparr>x = 0, y = 0\<rparr>, \<lparr>x = 0, y = 0\<rparr>]"

text \<open>Two points whose coordinates add up to \<open>2^63\<close>.\<close>
definition wide_points :: "point_t list" where
  "wide_points = [\<lparr>x = 4611686018427387904, y = 0\<rparr>, \<lparr>x = 4611686018427387904, y = 0\<rparr>]"

text \<open>The schedule of one worker: both loops in index order, every reduction in one piece.\<close>
definition in_order :: schedule where
  "in_order = \<lparr>assign_perm = (\<lambda>i. i), update_perm = (\<lambda>i. i), reduce_shape = (\<lambda>c. Whole)\<rparr>"

text \<open>The state of a run on all the points against the state of a run on the first
  \<open>n\<close> points: the same engine and centroids, the assignments longer by \<open>rest\<close>.\<close>
definition trailing ::
  "nat \<Rightarrow> asgn_t list \<Rightarrow> framework_KMeans \<times> point_t list \<times> asgn_t list
     \<Rightarrow> framework_KMeans \<times> point_t list \<times> asgn_t list \<Rightarrow> bool" where
  "trailing n rest = (\<lambda>(e1, c1, a1) (e2, c2, a2).
     e1 = e2 \<and> c1 = c2 \<and> a1 = a2 @ rest \<and> length a2 = n \<and> POINTS_SIZE e2 = n)"

section \<open>Loops and vectors\<close>

lemma and_then_Inr [simp]: "and_then (Inr v) f = f v"
  by (simp add: and_then_def)

lemma and_then_Inl [simp]: "and_then (Inl e) f = Inl e"
  by (simp add: and_then_def)

lemma for_each_append:
  "for_each (is @ js) body s = and_then (for_each is body s) (for_each js body)"
  by (induction "is" arbitrary: s) (auto simp: and_then_def split: sum.splits)

lemma for_each_invariant_gen:
  assumes "I pre s"
    and "\<And>pre' i s'. I pre' s' \<Longrightarrow> i \<in> set is \<Longrightarrow> \<exists>t. body i s' = Inr t \<and> I (pre' @ [i]) t"
  shows "\<exists>t. for_each is body s = Inr t \<and> I (pre @ is) t"
  using assms
proof (induction "is" arbitrary: pre s)
  case Nil
  then show ?case by simp
next
  case (Cons i "is")
  from Cons.prems obtain t where t: "body i s = Inr t" "I (pre @ [i]) t"
    by (meson list.set_intros(1))
  have "\<exists>u. for_each is body t = Inr u \<and> I ((pre @ [i]) @ is) u"
    by (rule Cons.IH [OF t(2)]) (simp add: Cons.prems(2))
  with t show ?case by simp
qed

lemma for_each_invariant:
  assumes "I [] s"
    and "\<And>pre i s'. I pre s' \<Longrightarrow> i \<in> set is \<Longrightarrow> \<exists>t. body i s' = Inr t \<and> I (pre @ [i]) t"
  shows "\<exists>t. for_each is body s = Inr t \<and> I is t"
  using for_each_invariant_gen [of I "[]" s "is" body] assms by simp

lemma length_resize [simp]: "length (resize n d xs) = n"
  by (simp add: resize_def)

lemma nth_resize: "i < n \<Longrightarrow> resize n d xs ! i = (if i < length xs then xs ! i else d)"
  by (simp add: resize_def nth_append)

lemma seed_ok:
  assumes "k \<le> length points" "length cs = k"
  shows "for_each [0 ..< k] (seed_body points) cs = Inr (take k points)"
proof -
  let ?I = "\<lambda>pre c. length c = k \<and> (\<forall>i < k. c ! i = (if i \<in> set pre then points ! i else cs ! i))"
  have "\<exists>t. for_each [0 ..< k] (seed_body points) cs = Inr t \<and> ?I [0 ..< k] t"
  proof (rule for_each_invariant)
    show "?I [] cs" using assms by simp
  next
    fix pre i s'
    assume "?I pre s'" "i \<in> set [0 ..< k]"
    then show "\<exists>t. seed_body points i s' = Inr t \<and> ?I (pre @ [i]) t"
      using assms by (auto simp: seed_body_def nth_list_update)
  qed
  then obtain t where t: "for_each [0 ..< k] (seed_body points) cs = Inr t"
    "length t = k" "\<forall>i < k. t ! i = points ! i"
    by auto
  have "t = take k points"
    using t assms by (intro nth_equalityI) auto
  with t show ?thesis by simp
qed

section \<open>The search loop\<close>

lemma getNearestCluster_eq:
  "getNearestCluster p cs = (if cs = [] then Inl CentroidsOutOfRange else Inr (nearest_index p cs))"
  by (simp add: getNearestCluster_def nearest_index_def)

lemma scan_ok_step:
  assumes "scan_ok p cs m st" "0 < m"
  shows "scan_ok p cs (Suc m) (nearest_step p cs m st)"
proof -
  obtain d n where st: "st = (d, n)" by (cases st)
  from assms(1) st have n: "n < m" "d = distance p (cs ! n)"
    and le: "\<forall>j < m. sint d \<le> sint (distance p (cs ! j))"
    and less: "\<forall>j < n. sint d < sint (distance p (cs ! j))"
    by (auto simp: scan_ok_def word_sle_eq word_sless_alt)
  show ?thesis
  proof (cases "distance p (cs ! m) <s d")
    case True
    then have lt: "sint (distance p (cs ! m)) < sint d" by (simp add: word_sless_alt)
    have "\<forall>j < Suc m. sint (distance p (cs ! m)) \<le> sint (distance p (cs ! j))"
      using le lt by (auto simp: less_Suc_eq)
    moreover have "\<forall>j < m. sint (distance p (cs ! m)) < sint (distance p (cs ! j))"
      using le lt by (meson less_le_trans)
    ultimately show ?thesis
      using True st by (simp add: scan_ok_def nearest_step_def word_sle_eq word_sless_alt)
  next
    case False
    then have ge: "sint d \<le> sint (distance p (cs ! m))" by (simp add: word_sless_alt)
    have "\<forall>j < Suc m. sint d \<le> sint (distance p (cs ! j))"
      using le ge by (auto simp: less_Suc_eq)
    then show ?thesis
      using False st n less
      by (simp add: scan_ok_def nearest_step_def word_sle_eq word_sless_alt less_Suc_eq)
  qed
qed

lemma scan_ok_fold:
  "scan_ok p cs (Suc m) (fold (nearest_step p cs) [1 ..< Suc m] (distance p (cs ! 0), 0))"
proof (induction m)
  case 0
  show ?case by (simp add: scan_ok_def)
next
  case (Suc m)
  then show ?case by (simp add: scan_ok_step)
qed

lemma nearest_index_props:
  assumes "cs \<noteq> []"
  shows "nearest_index p cs < length cs"
    and "\<forall>j < length cs. distance p (cs ! nearest_index p cs) \<le>s distance p (cs ! j)"
    and "\<forall>j < nearest_index p cs. distance p (cs ! nearest_index p cs) <s distance p (cs ! j)"
proof -
  from assms obtain m where m: "length cs = Suc m" by (cases cs) auto
  have "scan_ok p cs (length cs)
          (fold (nearest_step p cs) [1 ..< length cs] (distance p (cs ! 0), 0))"
    unfolding m by (rule scan_ok_fold)
  then show "nearest_index p cs < length cs"
    and "\<forall>j < length cs. distance p (cs ! nearest_index p cs) \<le>s distance p (cs ! j)"
    and "\<forall>j < nearest_index p cs. distance p (cs ! nearest_index p cs) <s distance p (cs ! j)"
    by (auto simp: scan_ok_def nearest_index_def split: prod.splits)
qed

lemma square_bound:
  fixes d :: int
  assumes "- (2 ^ 31) < d" "d < 2 ^ 31"
  shows "d * d < 2 ^ 62" "0 \<le> d * d"
proof -
  have "\<bar>d\<bar> < 2 ^ 31" using assms by simp
  then have "\<bar>d\<bar> * \<bar>d\<bar> < 2 ^ 31 * 2 ^ 31"
    by (intro mult_strict_mono) auto
  then show "d * d < 2 ^ 62" by (simp add: abs_mult_self_eq)
  show "0 \<le> d * d" by simp
qed

lemma fits_int64:
  fixes a b :: int
  assumes "0 \<le> a" "a < 2 ^ 62" "0 \<le> b" "b < 2 ^ 62"
  shows "- (2 ^ 63) \<le> a \<and> a < 2 ^ 63 \<and> - (2 ^ 63) \<le> b \<and> b < 2 ^ 63
     \<and> - (2 ^ 63) \<le> a + b \<and> a + b < 2 ^ 63"
  using assms by simp

lemma sint_diff_exact:
  fixes a b :: coord_t
  assumes "coord_ok a" "coord_ok b"
  shows "sint (a - b) = sint a - sint b"
proof -
  have "- (2 ^ 63) \<le> sint a - sint b" "sint a - sint b < 2 ^ 63"
    using assms by (auto simp: coord_ok_def)
  then show ?thesis
    by (simp add: sint_word_ariths signed_take_bit_int_eq_self)
qed

lemma sint_distance_exact:
  assumes "point_ok p" "point_ok c"
  shows "sint (distance p c) = sq_euclid p c"
proof -
  let ?dx = "sint (x p) - sint (x c)" and ?dy = "sint (y p) - sint (y c)"
  have dx: "sint (x p - x c) = ?dx" and dy: "sint (y p - y c) = ?dy"
    using assms by (simp_all add: point_ok_def sint_diff_exact)
  have bx: "- (2 ^ 31) < ?dx" "?dx < 2 ^ 31" and byy: "- (2 ^ 31) < ?dy" "?dy < 2 ^ 31"
    using assms by (auto simp: point_ok_def coord_ok_def)
  note sx = square_bound [OF bx] and sy = square_bound [OF byy]
  have mul: "sint (a * a) = signed_take_bit 63 (sint a * sint a)"
    and add: "sint (a + b) = signed_take_bit 63 (sint a + sint b)" for a b :: coord_t
    by (simp_all add: sint_word_ariths)
  have rx: "- (2 ^ 63) \<le> ?dx * ?dx" "?dx * ?dx < 2 ^ 63"
    and ry: "- (2 ^ 63) \<le> ?dy * ?dy" "?dy * ?dy < 2 ^ 63"
    and rs: "- (2 ^ 63) \<le> ?dx * ?dx + ?dy * ?dy" "?dx * ?dx + ?dy * ?dy < 2 ^ 63"
    using fits_int64 [OF sx(2) sx(1) sy(2) sy(1)] by blast+
  have mx: "sint ((x p - x c) * (x p - x c)) = ?dx * ?dx"
    unfolding mul dx by (rule signed_take_bit_int_eq_self [OF rx])
  have my: "sint ((y p - y c) * (y p - y c)) = ?dy * ?dy"
    unfolding mul dy by (rule signed_take_bit_int_eq_self [OF ry])
  have "sint ((x p - x c) * (x p - x c) + (y p - y c) * (y p - y c)) = ?dx * ?dx + ?dy * ?dy"
    unfolding add mx my by (rule signed_take_bit_int_eq_self [OF rs])
  then show ?thesis
    by (simp add: distance_def sq_euclid_def Let_def power2_eq_square)
qed

section \<open>One pass of the sequential engine\<close>

lemma length_next_centroids [simp]: "length (next_centroids points cs) = length cs"
  by (simp add: next_centroids_def)

lemma length_next_assignments [simp]: "length (next_assignments points cs) = length points"
  by (simp add: next_assignments_def)

lemma serial_clear_ok:
  assumes "k \<le> length (sums e)" "k \<le> length (counts e)"
  shows "\<exists>e1. for_each [0 ..< k] serial_clear_body e = Inr e1
           \<and> length (sums e1) = length (sums e) \<and> length (counts e1) = length (counts e)
           \<and> (\<forall>c < k. sums e1 ! c = origin \<and> counts e1 ! c = 0)"
proof -
  let ?I = "\<lambda>pre (e1 :: serial_KMeans). length (sums e1) = length (sums e) \<and> length (counts e1) = length (counts e)
              \<and> (\<forall>c \<in> set pre. sums e1 ! c = origin \<and> counts e1 ! c = 0)"
  have "\<exists>t. for_each [0 ..< k] serial_clear_body e = Inr t \<and> ?I [0 ..< k] t"
  proof (rule for_each_invariant)
    show "?I [] e" by simp
  next
    fix pre i s'
    assume "?I pre s'" "i \<in> set [0 ..< k]"
    then show "\<exists>t. serial_clear_body i s' = Inr t \<and> ?I (pre @ [i]) t"
      using assms by (auto simp: serial_clear_body_def nth_list_update origin_def)
  qed
  then show ?thesis by auto
qed

lemma assigned_snoc:
  "assigned points cs c (pre @ [i]) =
     (if nearest_index (points ! i) cs = c then assigned points cs c pre @ [i]
      else assigned points cs c pre)"
  by (simp add: assigned_def)

lemma assigned_Nil [simp]: "assigned points cs c [] = []"
  by (simp add: assigned_def)

lemma coord_sum_snoc [simp]: "coord_sum f points (ms @ [i]) = coord_sum f points ms + f (points ! i)"
  by (simp add: coord_sum_def)

lemma coord_sum_Nil [simp]: "coord_sum f points [] = 0"
  by (simp add: coord_sum_def)

lemma serial_assign_ok:
  assumes cs: "cs \<noteq> []" "length cs = k"
    and e: "k \<le> length (sums e)" "k \<le> length (counts e)"
    and zero: "\<forall>c < k. sums e ! c = origin \<and> counts e ! c = 0"
    and asg: "length asg = length points"
  shows "\<exists>e2. for_each [0 ..< length points] (serial_assign_body points cs) (e, asg)
                 = Inr (e2, next_assignments points cs)
           \<and> length (sums e2) = length (sums e) \<and> length (counts e2) = length (counts e)
           \<and> (\<forall>c < k. sums e2 ! c = \<lparr>x = coord_sum x points (members points cs c),
                                        y = coord_sum y points (members points cs c)\<rparr>
                     \<and> counts e2 ! c = word_of_nat (length (members points cs c)))"
proof -
  let ?near = "\<lambda>i. nearest_index (points ! i) cs"
  let ?I = "\<lambda>pre (e2 :: serial_KMeans, a2 :: asgn_t list). length (sums e2) = length (sums e) \<and> length (counts e2) = length (counts e)
              \<and> length a2 = length points
              \<and> (\<forall>c < k. sums e2 ! c = \<lparr>x = coord_sum x points (assigned points cs c pre),
                                         y = coord_sum y points (assigned points cs c pre)\<rparr>
                     \<and> counts e2 ! c = word_of_nat (length (assigned points cs c pre)))
              \<and> (\<forall>i \<in> set pre. a2 ! i = word_of_nat (?near i))"
  have "\<exists>t. for_each [0 ..< length points] (serial_assign_body points cs) (e, asg) = Inr t
          \<and> ?I [0 ..< length points] t"
  proof (rule for_each_invariant)
    show "?I [] (e, asg)" using zero asg by (simp add: origin_def)
  next
    fix pre i s'
    assume inv: "?I pre s'" and i: "i \<in> set [0 ..< length points]"
    obtain e2 a2 where s': "s' = (e2, a2)" by (cases s')
    have near: "?near i < k" using nearest_index_props(1) [OF cs(1)] cs(2) by simp
    from inv s' have len: "length (sums e2) = length (sums e)" "length (counts e2) = length (counts e)"
      "length a2 = length points"
      and acc: "\<forall>c < k. sums e2 ! c = \<lparr>x = coord_sum x points (assigned points cs c pre),
                                         y = coord_sum y points (assigned points cs c pre)\<rparr>
                     \<and> counts e2 ! c = word_of_nat (length (assigned points cs c pre))"
      and prev: "\<forall>i \<in> set pre. a2 ! i = word_of_nat (?near i)"
      by auto
    let ?e3 = "e2\<lparr>sums := (sums e2)[?near i := (sums e2 ! ?near i)
                                \<lparr>x := x (sums e2 ! ?near i) + x (points ! i),
                                 y := y (sums e2 ! ?near i) + y (points ! i)\<rparr>],
                    counts := (counts e2)[?near i := counts e2 ! ?near i + 1]\<rparr>"
    have step: "serial_assign_body points cs i s' = Inr (?e3, a2[i := word_of_nat (?near i)])"
      using near len e cs by (simp add: serial_assign_body_def s' getNearestCluster_eq)
    have "?I (pre @ [i]) (?e3, a2[i := word_of_nat (?near i)])"
      using near len e acc prev i
      by (auto simp: nth_list_update assigned_snoc)
    with step show "\<exists>t. serial_assign_body points cs i s' = Inr t \<and> ?I (pre @ [i]) t"
      by blast
  qed
  then obtain e2 a2 where r: "for_each [0 ..< length points] (serial_assign_body points cs) (e, asg) = Inr (e2, a2)"
    and inv: "?I [0 ..< length points] (e2, a2)"
    by auto
  have "a2 = next_assignments points cs"
    using inv by (intro nth_equalityI) (auto simp: next_assignments_def)
  with r inv show ?thesis
    by (auto simp: members_def assigned_def)
qed

lemma serial_update_ok:
  assumes cs: "length cs = k"
    and e: "k \<le> length (sums e)" "k \<le> length (counts e)"
    and acc: "\<forall>c < k. sums e ! c = \<lparr>x = coord_sum x points (members points cs c),
                                        y = coord_sum y points (members points cs c)\<rparr>
                     \<and> counts e ! c = word_of_nat (length (members points cs c))"
  shows "for_each [0 ..< k] (serial_update_body e) cs = Inr (next_centroids points cs)"
proof -
  let ?new = "\<lambda>c. mean_of points (members points cs c) (cs ! c)"
  let ?I = "\<lambda>pre c'. length c' = k \<and> (\<forall>c < k. c' ! c = (if c \<in> set pre then ?new c else cs ! c))"
  have "\<exists>t. for_each [0 ..< k] (serial_update_body e) cs = Inr t \<and> ?I [0 ..< k] t"
  proof (rule for_each_invariant)
    show "?I [] cs" using cs by simp
  next
    fix pre i s'
    assume "?I pre s'" "i \<in> set [0 ..< k]"
    then show "\<exists>t. serial_update_body e i s' = Inr t \<and> ?I (pre @ [i]) t"
      using e acc by (auto simp: serial_update_body_def nth_list_update mean_of_def)
  qed
  then obtain t where t: "for_each [0 ..< k] (serial_update_body e) cs = Inr t" "?I [0 ..< k] t"
    by auto
  have "t = next_centroids points cs"
    using t(2) cs by (intro nth_equalityI) (auto simp: next_centroids_def)
  with t show ?thesis by simp
qed

lemma serial_iteration_char:
  assumes "cs \<noteq> []" "length cs = k" "k \<le> length (sums e)" "k \<le> length (counts e)"
    "length asg = length points"
  shows "\<exists>e'. serial_iteration points k (e, cs, asg)
                 = Inr (e', next_centroids points cs, next_assignments points cs)
           \<and> length (sums e') = length (sums e) \<and> length (counts e') = length (counts e)"
proof -
  from serial_clear_ok [OF assms(3,4)] obtain e1 where
    e1: "for_each [0 ..< k] serial_clear_body e = Inr e1"
    "length (sums e1) = length (sums e)" "length (counts e1) = length (counts e)"
    "\<forall>c < k. sums e1 ! c = origin \<and> counts e1 ! c = 0"
    by blast
  have "\<exists>e2. for_each [0 ..< length points] (serial_assign_body points cs) (e1, asg)
                 = Inr (e2, next_assignments points cs)
           \<and> length (sums e2) = length (sums e1) \<and> length (counts e2) = length (counts e1)
           \<and> (\<forall>c < k. sums e2 ! c = \<lparr>x = coord_sum x points (members points cs c),
                                        y = coord_sum y points (members points cs c)\<rparr>
                     \<and> counts e2 ! c = word_of_nat (length (members points cs c)))"
    using assms e1 by (intro serial_assign_ok) simp_all
  then obtain e2 where
    e2: "for_each [0 ..< length points] (serial_assign_body points cs) (e1, asg)
                 = Inr (e2, next_assignments points cs)"
    "length (sums e2) = length (sums e1)" "length (counts e2) = length (counts e1)"
    "\<forall>c < k. sums e2 ! c = \<lparr>x = coord_sum x points (members points cs c),
                                        y = coord_sum y points (members points cs c)\<rparr>
                     \<and> counts e2 ! c = word_of_nat (length (members points cs c))"
    by blast
  have "for_each [0 ..< k] (serial_update_body e2) cs = Inr (next_centroids points cs)"
    using assms e1 e2 by (intro serial_update_ok) simp_all
  with e1 e2 show ?thesis
    by (simp add: serial_iteration_def)
qed

section \<open>One pass of the concurrent engine\<close>

lemma reduce_body_sum:
  "x (reduce_body ms p) = x p + sum_list (map x ms) \<and> y (reduce_body ms p) = y p + sum_list (map y ms)"
  unfolding reduce_body_def by (induction ms arbitrary: p) (simp_all add: add.assoc)

lemma parallel_reduce_sum:
  "x (parallel_reduce sh ms origin p) = x p + sum_list (map x ms)
     \<and> y (parallel_reduce sh ms origin p) = y p + sum_list (map y ms)"
proof (induction sh arbitrary: ms p)
  case Whole
  show ?case by (simp add: reduce_body_sum)
next
  case (Split n l r)
  have "sum_list (map f (take n ms)) + sum_list (map f (drop n ms)) = sum_list (map f ms)"
    for f :: "point_t \<Rightarrow> coord_t"
    by (metis append_take_drop_id map_append sum_list_append)
  then show ?case
    using Split by (simp add: reduce_join_def origin_def add.assoc)
next
  case (Chain n l r)
  have "sum_list (map f (take n ms)) + sum_list (map f (drop n ms)) = sum_list (map f ms)"
    for f :: "point_t \<Rightarrow> coord_t"
    by (metis append_take_drop_id map_append sum_list_append)
  then show ?case
    using Chain by (simp add: add.assoc)
qed

lemma parallel_reduce_origin:
  "parallel_reduce sh (map ((!) points) ms) origin origin
     = \<lparr>x = coord_sum x points ms, y = coord_sum y points ms\<rparr>"
proof -
  have "x (parallel_reduce sh (map ((!) points) ms) origin origin) = coord_sum x points ms"
    "y (parallel_reduce sh (map ((!) points) ms) origin origin) = coord_sum y points ms"
    using parallel_reduce_sum [of sh "map ((!) points) ms" origin]
    by (simp_all add: coord_sum_def origin_def comp_def)
  then show ?thesis by (cases "parallel_reduce sh (map ((!) points) ms) origin origin") simp
qed

lemma assigned_permutation:
  assumes "mset js = mset [0 ..< length points]"
  shows "coord_sum f points (assigned points cs c js) = coord_sum f points (members points cs c)"
    and "length (assigned points cs c js) = length (members points cs c)"
proof -
  have m: "mset (assigned points cs c js) = mset (members points cs c)"
    using assms by (simp add: assigned_def members_def)
  have "sum_mset (mset (map (\<lambda>i. f (points ! i)) (assigned points cs c js)))
      = sum_mset (mset (map (\<lambda>i. f (points ! i)) (members points cs c)))"
    using m by (metis mset_map)
  then show "coord_sum f points (assigned points cs c js) = coord_sum f points (members points cs c)"
    by (simp only: coord_sum_def sum_mset_sum_list)
  show "length (assigned points cs c js) = length (members points cs c)"
    using m by (metis size_mset)
qed

lemma framework_clear_ok:
  assumes "k \<le> length (temp_assignments e)"
  shows "\<exists>e1. for_each [0 ..< k] framework_clear_body e = Inr e1
           \<and> length (temp_assignments e1) = length (temp_assignments e)
           \<and> POINTS_SIZE e1 = POINTS_SIZE e
           \<and> (\<forall>c < k. temp_assignments e1 ! c = [])"
proof -
  let ?I = "\<lambda>pre (e1 :: framework_KMeans). length (temp_assignments e1) = length (temp_assignments e)
              \<and> POINTS_SIZE e1 = POINTS_SIZE e
              \<and> (\<forall>c \<in> set pre. temp_assignments e1 ! c = [])"
  have "\<exists>t. for_each [0 ..< k] framework_clear_body e = Inr t \<and> ?I [0 ..< k] t"
  proof (rule for_each_invariant)
    show "?I [] e" by simp
  next
    fix pre i s'
    assume "?I pre s'" "i \<in> set [0 ..< k]"
    then show "\<exists>t. framework_clear_body i s' = Inr t \<and> ?I (pre @ [i]) t"
      using assms by (auto simp: framework_clear_body_def nth_list_update)
  qed
  then show ?thesis by auto
qed

lemma unat_asgn: "n < 256 \<Longrightarrow> unat (word_of_nat n :: asgn_t) = n"
  by (simp add: unat_of_nat)

lemma framework_assign_ok:
  assumes cs: "cs \<noteq> []" "length cs = k" "k \<le> 256"
    and e: "k \<le> length (temp_assignments e)"
    and empty: "\<forall>c < k. temp_assignments e ! c = []"
    and asg: "length asg = length points"
    and js: "set js \<subseteq> {..< length points}"
  shows "\<exists>e2 a2. for_each js (framework_assign_body points cs iters) (e, asg) = Inr (e2, a2)
           \<and> length (temp_assignments e2) = length (temp_assignments e)
           \<and> POINTS_SIZE e2 = POINTS_SIZE e
           \<and> length a2 = length points
           \<and> (\<forall>c < k. temp_assignments e2 ! c = map ((!) points) (assigned points cs c js))
           \<and> (if iters = 0
               then \<forall>i \<in> set js. a2 ! i = word_of_nat (nearest_index (points ! i) cs)
               else a2 = asg)"
proof -
  let ?near = "\<lambda>i. nearest_index (points ! i) cs"
  let ?I = "\<lambda>pre (e2 :: framework_KMeans, a2 :: asgn_t list).
              length (temp_assignments e2) = length (temp_assignments e)
              \<and> POINTS_SIZE e2 = POINTS_SIZE e
              \<and> length a2 = length points
              \<and> (\<forall>c < k. temp_assignments e2 ! c = map ((!) points) (assigned points cs c pre))
              \<and> (if iters = 0 then \<forall>i \<in> set pre. a2 ! i = word_of_nat (?near i) else a2 = asg)"
  have "\<exists>t. for_each js (framework_assign_body points cs iters) (e, asg) = Inr t \<and> ?I js t"
  proof (rule for_each_invariant)
    show "?I [] (e, asg)" using empty asg by simp
  next
    fix pre i s'
    assume inv: "?I pre s'" and i: "i \<in> set js"
    obtain e2 a2 where s': "s' = (e2, a2)" by (cases s')
    have i_lt: "i < length points" using i js by auto
    have near: "?near i < k" using nearest_index_props(1) [OF cs(1)] cs(2) by simp
    then have cast: "unat (word_of_nat (?near i) :: asgn_t) = ?near i"
      using cs(3) by (intro unat_asgn) simp
    from inv s' have len: "length (temp_assignments e2) = length (temp_assignments e)"
      "POINTS_SIZE e2 = POINTS_SIZE e" "length a2 = length points"
      and acc: "\<forall>c < k. temp_assignments e2 ! c = map ((!) points) (assigned points cs c pre)"
      and prev: "if iters = 0 then \<forall>i \<in> set pre. a2 ! i = word_of_nat (?near i) else a2 = asg"
      by auto
    let ?a3 = "if iters = 0 then a2[i := word_of_nat (?near i)] else a2"
    let ?e3 = "e2\<lparr>temp_assignments := (temp_assignments e2)
                  [?near i := temp_assignments e2 ! ?near i @ [points ! i]]\<rparr>"
    have step: "framework_assign_body points cs iters i s' = Inr (?e3, ?a3)"
      using near len e cs i_lt cast
      by (simp add: framework_assign_body_def s' getNearestCluster_eq Let_def)
    have "?I (pre @ [i]) (?e3, ?a3)"
      using near len e acc prev i_lt
      by (auto simp: nth_list_update assigned_snoc)
    with step show "\<exists>t. framework_assign_body points cs iters i s' = Inr t \<and> ?I (pre @ [i]) t"
      by blast
  qed
  then show ?thesis by auto
qed

lemma point_update_eq: "p\<lparr>x := a, y := b\<rparr> = \<lparr>x = a, y = b\<rparr>" for p :: point_t
  by (cases p) simp

lemma framework_update_ok:
  assumes cs: "length cs = k"
    and e: "k \<le> length (temp_assignments e)"
    and acc: "\<forall>c < k. temp_assignments e ! c = map ((!) points) (assigned points cs c js)"
    and js: "mset js = mset [0 ..< length points]"
    and order: "mset us = mset [0 ..< k]"
  shows "for_each us (framework_update_body e shapes) cs = Inr (next_centroids points cs)"
proof -
  let ?new = "\<lambda>c. mean_of points (members points cs c) (cs ! c)"
  let ?I = "\<lambda>pre (c' :: point_t list).
              length c' = k \<and> (\<forall>c < k. c' ! c = (if c \<in> set pre then ?new c else cs ! c))"
  have us: "set us = {0 ..< k}" using order by (metis mset_eq_setD set_upt)
  have "\<exists>t. for_each us (framework_update_body e shapes) cs = Inr t \<and> ?I us t"
  proof (rule for_each_invariant)
    show "?I [] cs" using cs by simp
  next
    fix pre i s'
    assume inv: "?I pre s'" and "i \<in> set us"
    then have i: "i < k" using us by simp
    have temp: "temp_assignments e ! i = map ((!) points) (assigned points cs i js)"
      using acc i by simp
    have size: "length (temp_assignments e ! i) = length (members points cs i)"
      using temp assigned_permutation(2) [OF js] by simp
    have red: "parallel_reduce (shapes i) (temp_assignments e ! i) origin origin
        = \<lparr>x = coord_sum x points (members points cs i), y = coord_sum y points (members points cs i)\<rparr>"
      unfolding temp parallel_reduce_origin using assigned_permutation(1) [OF js] by simp
    have step: "framework_update_body e shapes i s' =
        Inr (if (word_of_nat (length (members points cs i)) :: size_t) = 0 then s'
             else s'[i := ?new i])"
      using i e by (simp add: framework_update_body_def size red Let_def mean_of_def point_update_eq)
    have "?I (pre @ [i]) (if (word_of_nat (length (members points cs i)) :: size_t) = 0 then s'
             else s'[i := ?new i])"
      using inv i by (auto simp: nth_list_update mean_of_def)
    with step show "\<exists>t. framework_update_body e shapes i s' = Inr t \<and> ?I (pre @ [i]) t"
      by blast
  qed
  then obtain t where t: "for_each us (framework_update_body e shapes) cs = Inr t" "?I us t"
    by auto
  have "t = next_centroids points cs"
    using t(2) cs us by (intro nth_equalityI) (auto simp: next_centroids_def)
  with t show ?thesis by simp
qed

lemma framework_iteration_char:
  assumes cs: "cs \<noteq> []" "length cs = k" "k \<le> 256"
    and e: "k \<le> length (temp_assignments e)" "POINTS_SIZE e = length points"
    and asg: "length asg = length points"
    and s: "valid_schedule (length points) k s"
  shows "\<exists>e'. framework_iteration points k iters s (e, cs, asg)
                 = Inr (e', next_centroids points cs,
                        if iters = 0 then next_assignments points cs else asg)
           \<and> length (temp_assignments e') = length (temp_assignments e)
           \<and> POINTS_SIZE e' = POINTS_SIZE e"
proof -
  let ?js = "map (assign_perm s) [0 ..< length points]"
  let ?us = "map (update_perm s) [0 ..< k]"
  from s have js: "mset ?js = mset [0 ..< length points]" and us: "mset ?us = mset [0 ..< k]"
    by (simp_all add: valid_schedule_def)
  have js_set: "set ?js = {0 ..< length points}"
    using js by (metis mset_eq_setD set_upt)
  from framework_clear_ok [OF e(1)] obtain e1 where
    e1: "for_each [0 ..< k] framework_clear_body e = Inr e1"
    "length (temp_assignments e1) = length (temp_assignments e)"
    "POINTS_SIZE e1 = POINTS_SIZE e"
    "\<forall>c < k. temp_assignments e1 ! c = []"
    by blast
  have "\<exists>e2 a2. for_each ?js (framework_assign_body points cs iters) (e1, asg) = Inr (e2, a2)
           \<and> length (temp_assignments e2) = length (temp_assignments e1)
           \<and> POINTS_SIZE e2 = POINTS_SIZE e1
           \<and> length a2 = length points
           \<and> (\<forall>c < k. temp_assignments e2 ! c = map ((!) points) (assigned points cs c ?js))
           \<and> (if iters = 0
               then \<forall>i \<in> set ?js. a2 ! i = word_of_nat (nearest_index (points ! i) cs)
               else a2 = asg)"
    using cs e e1 asg js_set by (intro framework_assign_ok) auto
  then obtain e2 a2 where
    e2: "for_each ?js (framework_assign_body points cs iters) (e1, asg) = Inr (e2, a2)"
    "length (temp_assignments e2) = length (temp_assignments e1)"
    "POINTS_SIZE e2 = POINTS_SIZE e1"
    "length a2 = length points"
    "\<forall>c < k. temp_assignments e2 ! c = map ((!) points) (assigned points cs c ?js)"
    and a2: "if iters = 0
               then \<forall>i \<in> set ?js. a2 ! i = word_of_nat (nearest_index (points ! i) cs)
               else a2 = asg"
    by blast
  have a2': "a2 = (if iters = 0 then next_assignments points cs else asg)"
  proof (cases "iters = 0")
    case True
    have "\<forall>i \<in> set ?js. a2 ! i = word_of_nat (nearest_index (points ! i) cs)"
      using a2 True by (simp only: refl if_True)
    then have "\<forall>i < length points. a2 ! i = word_of_nat (nearest_index (points ! i) cs)"
      unfolding js_set by simp
    then have "a2 = next_assignments points cs"
      using e2(4) by (intro nth_equalityI) (auto simp: next_assignments_def)
    with True show ?thesis by simp
  next
    case False
    with a2 show ?thesis by simp
  qed
  have upd: "for_each ?us (framework_update_body e2 (reduce_shape s)) cs
      = Inr (next_centroids points cs)"
    using cs(2) _ e2(5) js us
  proof (rule framework_update_ok)
    show "k \<le> length (temp_assignments e2)" using e e1 e2 by simp
  qed
  show ?thesis
    using e1 e2 upd a2' e(2)
    by (simp add: framework_iteration_def parallel_for_def)
qed

section \<open>The refinement loop and \<open>compute\<close>\<close>

lemma length_funpow_next [simp]: "length ((next_centroids points ^^ m) cs) = length cs"
  by (induction m) simp_all

lemma next_centroids_Nil [simp]: "next_centroids points cs = [] \<longleftrightarrow> cs = []"
  using length_next_centroids [of points cs] by (metis length_0_conv)

lemma length_centroids_after [simp]: "k \<le> length points \<Longrightarrow> length (centroids_after points k m) = k"
  by (simp add: centroids_after_def)

lemma serial_refine_char:
  assumes "cs \<noteq> []" "length cs = k" "k \<le> length (sums e)" "k \<le> length (counts e)"
    "length asg = length points"
  shows "\<exists>e'. serial_refine points k m (e, cs, asg)
           = Inr (e', (next_centroids points ^^ m) cs,
                  case m of 0 \<Rightarrow> asg
                  | Suc j \<Rightarrow> next_assignments points ((next_centroids points ^^ j) cs))"
  using assms
proof (induction m arbitrary: e cs asg)
  case 0
  show ?case by simp
next
  case (Suc m)
  from serial_iteration_char [OF Suc.prems] obtain e1 where
    e1: "serial_iteration points k (e, cs, asg)
          = Inr (e1, next_centroids points cs, next_assignments points cs)"
    "length (sums e1) = length (sums e)" "length (counts e1) = length (counts e)"
    by blast
  have "\<exists>e'. serial_refine points k m (e1, next_centroids points cs, next_assignments points cs)
           = Inr (e', (next_centroids points ^^ m) (next_centroids points cs),
                  case m of 0 \<Rightarrow> next_assignments points cs
                  | Suc j \<Rightarrow> next_assignments points
                      ((next_centroids points ^^ j) (next_centroids points cs)))"
    using Suc.prems e1 by (intro Suc.IH) auto
  then show ?case
    using e1 by (auto simp: funpow_swap1 split: nat.splits)
qed

lemma framework_refine_char:
  assumes "cs \<noteq> []" "length cs = k" "k \<le> 256"
    "k \<le> length (temp_assignments e)" "POINTS_SIZE e = length points"
    "length asg = length points"
    "\<forall>j < m. valid_schedule (length points) k (sched j)"
  shows "\<exists>e'. framework_refine points k sched m (e, cs, asg)
           = Inr (e', (next_centroids points ^^ m) cs,
                  case m of 0 \<Rightarrow> asg
                  | Suc j \<Rightarrow> next_assignments points ((next_centroids points ^^ j) cs))"
  using assms
proof (induction m arbitrary: e cs asg)
  case 0
  show ?case by simp
next
  case (Suc m)
  have "valid_schedule (length points) k (sched m)" using Suc.prems(7) by simp
  from framework_iteration_char [OF Suc.prems(1-6) this, of m] obtain e1 where
    e1: "framework_iteration points k m (sched m) (e, cs, asg)
          = Inr (e1, next_centroids points cs,
                 if m = 0 then next_assignments points cs else asg)"
    "length (temp_assignments e1) = length (temp_assignments e)"
    "POINTS_SIZE e1 = POINTS_SIZE e"
    by blast
  let ?a1 = "if m = 0 then next_assignments points cs else asg"
  have "\<exists>e'. framework_refine points k sched m (e1, next_centroids points cs, ?a1)
           = Inr (e', (next_centroids points ^^ m) (next_centroids points cs),
                  case m of 0 \<Rightarrow> ?a1
                  | Suc j \<Rightarrow> next_assignments points
                      ((next_centroids points ^^ j) (next_centroids points cs)))"
    using Suc.prems e1 by (intro Suc.IH) auto
  then show ?case
    using e1 by (auto simp: funpow_swap1 split: nat.splits)
qed

lemma serial_compute_char:
  assumes "1 \<le> k" "k \<le> length points" "k \<le> length (sums e)" "k \<le> length (counts e)"
  shows "\<exists>e'. serial_compute e points k m cs0 as0
           = Inr (e', centroids_after points k m,
                  assignments_after points k m (resize (length points) 0 as0))"
proof -
  have seed: "for_each [0 ..< k] (seed_body points) (resize k origin cs0) = Inr (take k points)"
    using assms by (intro seed_ok) simp_all
  have "\<exists>e'. serial_refine points k m (e, take k points, resize (length points) 0 as0)
           = Inr (e', (next_centroids points ^^ m) (take k points),
                  case m of 0 \<Rightarrow> resize (length points) 0 as0
                  | Suc j \<Rightarrow> next_assignments points ((next_centroids points ^^ j) (take k points)))"
    using assms by (intro serial_refine_char) auto
  then show ?thesis
    by (auto simp: serial_compute_def seed centroids_after_def assignments_after_def
          split: nat.splits)
qed

lemma framework_compute_char:
  assumes "1 \<le> k" "k \<le> 256" "k \<le> length points"
    "k \<le> length (temp_assignments e)" "POINTS_SIZE e = length points"
    "\<forall>j < m. valid_schedule (length points) k (sched j)"
  shows "\<exists>e'. framework_compute sched e points k m cs0 as0
           = Inr (e', centroids_after points k m,
                  assignments_after points k m (resize (length points) 0 as0))"
proof -
  have seed: "for_each [0 ..< k] (seed_body points) (resize k origin cs0) = Inr (take k points)"
    using assms by (intro seed_ok) simp_all
  have "\<exists>e'. framework_refine points k sched m (e, take k points, resize (length points) 0 as0)
           = Inr (e', (next_centroids points ^^ m) (take k points),
                  case m of 0 \<Rightarrow> resize (length points) 0 as0
                  | Suc j \<Rightarrow> next_assignments points ((next_centroids points ^^ j) (take k points)))"
    using assms by (intro framework_refine_char) auto
  then show ?thesis
    by (auto simp: framework_compute_def seed centroids_after_def assignments_after_def
          split: nat.splits)
qed

lemma serial_init_sizes [simp]:
  "length (sums (serial_init e n k iters)) = k" "length (counts (serial_init e n k iters)) = k"
  by (simp_all add: serial_init_def)

lemma framework_init_sizes [simp]:
  "length (temp_assignments (framework_init e n k iters)) = length (temp_assignments e) + k"
  "POINTS_SIZE (framework_init e n k iters) = n"
  by (simp_all add: framework_init_def)

lemma valid_backwards_scenario: "valid_schedule (length scenario_points) 2 (backwards 4 2)"
  by code_simp

section \<open>C1: the concurrent engine returns what the sequential engine returns\<close>

text \<open>
  C1. For every input with \<open>1 \<le> k \<le> 256\<close> and \<open>k \<le> points.size()\<close>, each engine
  initialised by \<open>init(points.size(), k, iters)\<close>, the concurrent engine's \<open>compute\<close> returns
  the same centroids and the same assignments as the sequential engine's, whatever the order
  in which the bodies of the two parallel loops take effect and however the reductions are cut.
\<close>
theorem concurrent_matches_sequential:
  assumes "1 \<le> k" "k \<le> 256" "k \<le> length points"
    and "\<forall>j < iters. valid_schedule (length points) k (sched j)"
  shows "\<exists>e1 e2 centroids assignments.
      serial_compute (serial_init s0 (length points) k iters) points k iters cs0 as0
        = Inr (e1, centroids, assignments) \<and>
      framework_compute sched (framework_init f0 (length points) k iters) points k iters cs0 as0
        = Inr (e2, centroids, assignments)"
proof -
  obtain e1 where "serial_compute (serial_init s0 (length points) k iters) points k iters cs0 as0
      = Inr (e1, centroids_after points k iters,
             assignments_after points k iters (resize (length points) 0 as0))"
    using serial_compute_char [of k points "serial_init s0 (length points) k iters" iters cs0 as0]
      assms by auto
  moreover obtain e2 where
    "framework_compute sched (framework_init f0 (length points) k iters) points k iters cs0 as0
      = Inr (e2, centroids_after points k iters,
             assignments_after points k iters (resize (length points) 0 as0))"
    using framework_compute_char [of k points "framework_init f0 (length points) k iters"
        iters sched cs0 as0] assms by auto
  ultimately show ?thesis by blast
qed

theorem concurrent_matches_sequential_witness:
  "(1::nat) \<le> 2 \<and> (2::nat) \<le> 256 \<and> 2 \<le> length scenario_points
   \<and> valid_schedule (length scenario_points) 2 (backwards 4 2)
   \<and> (\<exists>e1 e2 centroids assignments.
      serial_compute (serial_init \<lparr>sums = [], counts = []\<rparr> (length scenario_points) 2 1)
          scenario_points 2 1 [] []
        = Inr (e1, centroids, assignments) \<and>
      framework_compute (\<lambda>j. backwards 4 2)
          (framework_init \<lparr>temp_assignments = [], POINTS_SIZE = 0\<rparr> (length scenario_points) 2 1)
          scenario_points 2 1 [] []
        = Inr (e2, centroids, assignments))"
proof -
  have k: "(1::nat) \<le> 2" "(2::nat) \<le> 256" "2 \<le> length scenario_points"
    by (simp_all add: scenario_points_def)
  have v: "\<forall>j < (1::nat). valid_schedule (length scenario_points) 2 (backwards 4 2)"
    by (simp add: valid_backwards_scenario)
  show ?thesis
    using k valid_backwards_scenario concurrent_matches_sequential [OF k v] by simp
qed

section \<open>Assignments, counts and means\<close>

lemma next_assignments_nth:
  assumes "cs \<noteq> []" "length cs \<le> 256" "i < length points"
  shows "unat (next_assignments points cs ! i) = nearest_index (points ! i) cs"
proof -
  have "nearest_index (points ! i) cs < 256"
    using nearest_index_props(1) [OF assms(1), of "points ! i"] assms(2) by simp
  then show ?thesis
    using assms(3) by (simp add: next_assignments_def unat_asgn)
qed

lemma assigned_to_next_assignments:
  assumes "cs \<noteq> []" "length cs \<le> 256"
  shows "assigned_to (next_assignments points cs) c = members points cs c"
  unfolding assigned_to_def members_def
  using assms by (auto intro!: filter_cong simp: next_assignments_nth)

lemma next_centroids_nth:
  "c < length cs \<Longrightarrow> next_centroids points cs ! c = mean_of points (members points cs c) (cs ! c)"
  by (simp add: next_centroids_def)

lemma length_members: "length (members points cs c) \<le> length points"
  unfolding members_def by (metis length_filter_le length_upt diff_zero)

lemma member_count_nonzero:
  assumes "members points cs c \<noteq> []" "length points < 2 ^ 64"
  shows "(word_of_nat (length (members points cs c)) :: size_t) \<noteq> 0"
proof -
  have "0 < length (members points cs c)" "length (members points cs c) < 2 ^ 64"
    using assms length_members [of points cs c] by simp_all
  then show ?thesis
    by (simp add: word_of_nat_eq_0_iff nat_dvd_not_less)
qed

lemma sint_sum_list:
  "sint (sum_list ws :: coord_t) = signed_take_bit 63 (sum_list (map sint ws))"
proof (induction ws)
  case Nil
  show ?case by simp
next
  case (Cons w ws)
  have "sint (w + sum_list ws) = signed_take_bit 63 (sint w + sint (sum_list ws))"
    by (simp add: sint_word_ariths)
  also have "\<dots> = signed_take_bit 63 (signed_take_bit 63 (sint w) + signed_take_bit 63 (sum_list (map sint ws)))"
    using sint_ge [of w] sint_lt [of w] by (simp add: Cons.IH signed_take_bit_int_eq_self)
  also have "\<dots> = signed_take_bit 63 (sint w + sum_list (map sint ws))"
    by (rule signed_take_bit_add)
  finally show ?case by simp
qed

lemma sint_count:
  assumes "n < 2 ^ 63"
  shows "sint (word_of_nat n :: size_t) = int n"
proof -
  have "- (2 ^ 63) \<le> int n" "int n < 2 ^ 63" using assms by simp_all
  then have "signed_take_bit 63 (int n) = int n"
    by (rule signed_take_bit_int_eq_self)
  then show ?thesis by (simp add: signed_of_nat)
qed

lemma sdiv_in_range:
  fixes a b :: int
  assumes "int64_range a" "0 < b"
  shows "int64_range (a sdiv b)"
proof -
  have "\<bar>a\<bar> div b \<le> \<bar>a\<bar> div 1"
    using assms(2) by (intro zdiv_mono2) simp_all
  then have "\<bar>a\<bar> div b \<le> \<bar>a\<bar>" by simp
  moreover have "0 \<le> \<bar>a\<bar> div b"
    using assms(2) by (simp add: pos_imp_zdiv_nonneg_iff)
  ultimately have "\<bar>a\<bar> div b \<le> \<bar>a\<bar>" "0 \<le> \<bar>a\<bar> div b" by simp_all
  then show ?thesis
    using assms by (auto simp: int64_range_def signed_divide_int_def sgn_if)
qed

lemma sint_int64_div:
  assumes "int64_range (sum_list (map sint ws))" "0 < n" "n < 2 ^ 63"
  shows "sint (int64_div (sum_list ws) (word_of_nat n)) = sum_list (map sint ws) sdiv int n"
proof -
  have s: "sint (sum_list ws :: coord_t) = sum_list (map sint ws)"
    using assms(1) by (simp add: sint_sum_list int64_range_def signed_take_bit_int_eq_self)
  have "int64_range (sum_list (map sint ws) sdiv int n)"
    using assms by (intro sdiv_in_range) simp_all
  then have "signed_take_bit 63 (sum_list (map sint ws) sdiv int n) = sum_list (map sint ws) sdiv int n"
    by (simp add: int64_range_def signed_take_bit_int_eq_self)
  then show ?thesis
    by (simp add: int64_div_def s sint_count [OF assms(3)] sint_sbintrunc')
qed

section \<open>What \<open>compute\<close> of both engines returns\<close>

lemma serial_ready_init [simp]: "serial_ready k (serial_init e n k iters)"
  by (simp add: serial_ready_def)

lemma framework_ready_init [simp]: "framework_ready n k (framework_init e n k iters)"
  by (simp add: framework_ready_def)

lemma both_engines_char:
  assumes "1 \<le> k" "k \<le> 256" "k \<le> length points"
    and "\<forall>j < iters. valid_schedule (length points) k (sched j)"
    and "serial_ready k s" "framework_ready (length points) k f"
  shows "\<exists>e1 e2.
      serial_compute s points k iters cs0 as0
        = Inr (e1, centroids_after points k iters,
               assignments_after points k iters (resize (length points) 0 as0)) \<and>
      framework_compute sched f points k iters cs0 as0
        = Inr (e2, centroids_after points k iters,
               assignments_after points k iters (resize (length points) 0 as0))"
proof -
  obtain e1 where "serial_compute s points k iters cs0 as0
      = Inr (e1, centroids_after points k iters,
             assignments_after points k iters (resize (length points) 0 as0))"
    using serial_compute_char [of k points s iters cs0 as0] assms
    by (auto simp: serial_ready_def)
  moreover obtain e2 where "framework_compute sched f points k iters cs0 as0
      = Inr (e2, centroids_after points k iters,
             assignments_after points k iters (resize (length points) 0 as0))"
    using framework_compute_char [of k points f iters sched cs0 as0] assms
    by (auto simp: framework_ready_def)
  ultimately show ?thesis by blast
qed

lemma centroids_after_Suc:
  "centroids_after points k (Suc m) = next_centroids points (centroids_after points k m)"
  by (simp add: centroids_after_def)

lemma centroids_after_nonempty:
  "1 \<le> k \<Longrightarrow> k \<le> length points \<Longrightarrow> centroids_after points k m \<noteq> []"
  using length_centroids_after [of k points m] by (cases "centroids_after points k m") auto

lemma final_assignment_bound:
  assumes "1 \<le> k" "k \<le> 256" "k \<le> length points" "i < length points"
  shows "unat (assignments_after points k (Suc m) asg ! i) < k"
proof -
  let ?C = "centroids_after points k m"
  have C: "?C \<noteq> []" "length ?C = k"
    using assms by (simp_all add: centroids_after_nonempty)
  then have "unat (next_assignments points ?C ! i) = nearest_index (points ! i) ?C"
    using assms by (intro next_assignments_nth) simp_all
  moreover have "nearest_index (points ! i) ?C < k"
    using nearest_index_props(1) [OF C(1)] C(2) by simp
  ultimately show ?thesis by (simp add: assignments_after_def)
qed

section \<open>C7: every returned assignment is a centroid index\<close>

text \<open>
  C7. For every input with \<open>1 \<le> k \<le> 256\<close>, \<open>points.size() \<ge> k\<close> and \<open>iters \<ge> 1\<close>, each
  engine initialised for it, \<open>compute\<close> returns \<open>k\<close> centroids and one assignment for each
  point, and every assignment is a centroid index: \<open>assignments[i] < k\<close> (the type is
  unsigned, so \<open>0 \<le> assignments[i]\<close> holds by itself).
\<close>
theorem assignments_index_centroids:
  assumes "1 \<le> k" "k \<le> 256" "k \<le> length points" "1 \<le> iters"
    and "\<forall>j < iters. valid_schedule (length points) k (sched j)"
  shows "\<exists>e1 e2 centroids assignments.
      serial_compute (serial_init s0 (length points) k iters) points k iters cs0 as0
        = Inr (e1, centroids, assignments) \<and>
      framework_compute sched (framework_init f0 (length points) k iters) points k iters cs0 as0
        = Inr (e2, centroids, assignments) \<and>
      length centroids = k \<and> length assignments = length points \<and>
      (\<forall>i < length points. unat (assignments ! i) < k)"
proof -
  obtain m where m: "iters = Suc m" using assms(4) by (cases iters) auto
  obtain e1 e2 where
    "serial_compute (serial_init s0 (length points) k iters) points k iters cs0 as0
        = Inr (e1, centroids_after points k iters,
               assignments_after points k iters (resize (length points) 0 as0))"
    "framework_compute sched (framework_init f0 (length points) k iters) points k iters cs0 as0
        = Inr (e2, centroids_after points k iters,
               assignments_after points k iters (resize (length points) 0 as0))"
    using both_engines_char [OF assms(1-3,5), of "serial_init s0 (length points) k iters"
        "framework_init f0 (length points) k iters" cs0 as0]
    by auto
  moreover have "length (centroids_after points k iters) = k"
    using assms by simp
  moreover have "length (assignments_after points k iters (resize (length points) 0 as0))
      = length points"
    by (simp add: m assignments_after_def)
  moreover have "\<forall>i < length points.
      unat (assignments_after points k iters (resize (length points) 0 as0) ! i) < k"
    using assms unfolding m by (auto intro: final_assignment_bound)
  ultimately show ?thesis by blast
qed

theorem assignments_index_centroids_witness:
  "(1::nat) \<le> 2 \<and> (2::nat) \<le> 256 \<and> 2 \<le> length scenario_points \<and> (1::nat) \<le> 1
   \<and> valid_schedule (length scenario_points) 2 (backwards 4 2)
   \<and> (\<exists>e1 e2 centroids assignments.
      serial_compute (serial_init \<lparr>sums = [], counts = []\<rparr> (length scenario_points) 2 1)
          scenario_points 2 1 [] []
        = Inr (e1, centroids, assignments) \<and>
      framework_compute (\<lambda>j. backwards 4 2)
          (framework_init \<lparr>temp_assignments = [], POINTS_SIZE = 0\<rparr> (length scenario_points) 2 1)
          scenario_points 2 1 [] []
        = Inr (e2, centroids, assignments) \<and>
      length centroids = 2 \<and> length assignments = length scenario_points \<and>
      (\<forall>i < length scenario_points. unat (assignments ! i) < 2))"
proof -
  have k: "(1::nat) \<le> 2" "(2::nat) \<le> 256" "2 \<le> length scenario_points" "(1::nat) \<le> 1"
    by (simp_all add: scenario_points_def)
  have v: "\<forall>j < (1::nat). valid_schedule (length scenario_points) 2 (backwards 4 2)"
    by (simp add: valid_backwards_scenario)
  show ?thesis
    using k valid_backwards_scenario assignments_index_centroids [OF k v] by simp
qed

section \<open>The centroid of a cluster with members and of one without\<close>

lemma mean_of_nonempty:
  assumes "members points cs c \<noteq> []" "length points < 2 ^ 64"
  shows "mean_of points (members points cs c) old =
     \<lparr>x = int64_div (sum_list (map (\<lambda>i. x (points ! i)) (members points cs c)))
            (word_of_nat (length (members points cs c))),
      y = int64_div (sum_list (map (\<lambda>i. y (points ! i)) (members points cs c)))
            (word_of_nat (length (members points cs c)))\<rparr>"
  using member_count_nonzero [OF assms] by (simp add: mean_of_def coord_sum_def)

lemma mean_of_empty: "mean_of points [] old = old"
  by (simp add: mean_of_def)

lemma sint_mean:
  fixes f :: "point_t \<Rightarrow> coord_t"
  assumes "ms \<noteq> []" "length ms < 2 ^ 63"
    and "int64_range (sum_list (map (\<lambda>i. sint (f (points ! i))) ms))"
  shows "sint (int64_div (sum_list (map (\<lambda>i. f (points ! i)) ms)) (word_of_nat (length ms)))
     = sum_list (map (\<lambda>i. sint (f (points ! i))) ms) sdiv int (length ms)"
proof -
  have eq: "map sint (map (\<lambda>i. f (points ! i)) ms) = map (\<lambda>i. sint (f (points ! i))) ms"
    by simp
  have "0 < length ms" using assms(1) by simp
  with sint_int64_div [of "map (\<lambda>i. f (points ! i)) ms" "length ms", unfolded eq]
  show ?thesis using assms(2,3) by blast
qed

section \<open>C2: a nonempty cluster's centroid is the truncated mean of its members\<close>

text \<open>
  C2, as stated, fails when the sum of the members' coordinates does not fit 64 bits: the
  engines add in \<^verbatim>\<open>std::int64_t\<close> and the sum wraps. For the two points \<open>(2^62, 0)\<close> with
  \<open>k = 1\<close> and one iteration both engines return the centroid \<open>(-2^62, 0)\<close>, where the sum
  of the two coordinates divided by 2 is \<open>2^62\<close>.
\<close>
theorem wide_sum_counterexample:
  "serial_compute (serial_init \<lparr>sums = [], counts = []\<rparr> 2 1 1) wide_points 1 1 [] []
     = Inr (\<lparr>sums = [\<lparr>x = 9223372036854775808, y = 0\<rparr>], counts = [2]\<rparr>,
            [\<lparr>x = 13835058055282163712, y = 0\<rparr>], [0, 0])
   \<and> framework_compute (\<lambda>j. backwards 2 1)
        (framework_init \<lparr>temp_assignments = [], POINTS_SIZE = 0\<rparr> 2 1 1) wide_points 1 1 [] []
     = Inr (\<lparr>temp_assignments = [[\<lparr>x = 4611686018427387904, y = 0\<rparr>,
                                    \<lparr>x = 4611686018427387904, y = 0\<rparr>]],
             POINTS_SIZE = 2\<rparr>,
            [\<lparr>x = 13835058055282163712, y = 0\<rparr>], [0, 0])
   \<and> sint (13835058055282163712 :: coord_t) = - 4611686018427387904
   \<and> sum_list (map (\<lambda>i. sint (x (wide_points ! i))) (assigned_to [0, 0] 0))
         sdiv int (length (assigned_to [0, 0] 0))
       = 4611686018427387904"
  by code_simp

text \<open>
  C2, amended. For every input with \<open>1 \<le> k \<le> 256\<close>, \<open>points.size() \<ge> k\<close> and \<open>iters \<ge> 1\<close>
  (a vector holds fewer than \<open>2^64\<close> points), in both engines: for every cluster \<open>c\<close> that
  has a member in the final iteration, the returned centroid's \<open>x\<close> is the 64-bit sum, as
  the code adds it, of the \<open>x\<close> of the points assigned to \<open>c\<close>, divided by their number by
  the division of \<^verbatim>\<open>std::int64_t\<close> that truncates towards zero, and the same for \<open>y\<close>.
  Whenever the sum of those coordinates as integers fits 64 bits, the centroid's coordinate
  read as an integer is that integer sum divided by the count, truncated towards zero.
\<close>
theorem centroid_is_truncated_mean:
  assumes "1 \<le> k" "k \<le> 256" "k \<le> length points" "1 \<le> iters" "length points < 2 ^ 64"
    and "\<forall>j < iters. valid_schedule (length points) k (sched j)"
  shows "\<exists>e1 e2 centroids assignments.
      serial_compute (serial_init s0 (length points) k iters) points k iters cs0 as0
        = Inr (e1, centroids, assignments) \<and>
      framework_compute sched (framework_init f0 (length points) k iters) points k iters cs0 as0
        = Inr (e2, centroids, assignments) \<and>
      (\<forall>c < k. assigned_to assignments c \<noteq> [] \<longrightarrow>
         x (centroids ! c)
           = int64_div (sum_list (map (\<lambda>i. x (points ! i)) (assigned_to assignments c)))
               (word_of_nat (length (assigned_to assignments c))) \<and>
         y (centroids ! c)
           = int64_div (sum_list (map (\<lambda>i. y (points ! i)) (assigned_to assignments c)))
               (word_of_nat (length (assigned_to assignments c))) \<and>
         (length points < 2 ^ 63 \<and>
          int64_range (sum_list (map (\<lambda>i. sint (x (points ! i))) (assigned_to assignments c)))
          \<longrightarrow> sint (x (centroids ! c))
             = sum_list (map (\<lambda>i. sint (x (points ! i))) (assigned_to assignments c))
                 sdiv int (length (assigned_to assignments c))) \<and>
         (length points < 2 ^ 63 \<and>
          int64_range (sum_list (map (\<lambda>i. sint (y (points ! i))) (assigned_to assignments c)))
          \<longrightarrow> sint (y (centroids ! c))
             = sum_list (map (\<lambda>i. sint (y (points ! i))) (assigned_to assignments c))
                 sdiv int (length (assigned_to assignments c))))"
proof -
  obtain m where m: "iters = Suc m" using assms(4) by (cases iters) auto
  let ?C = "centroids_after points k m"
  let ?cs = "centroids_after points k iters"
  let ?as = "assignments_after points k iters (resize (length points) 0 as0)"
  have C: "?C \<noteq> []" "length ?C = k" "length ?C \<le> 256"
    using assms by (simp_all add: centroids_after_nonempty)
  have as: "?as = next_assignments points ?C"
    by (simp add: m assignments_after_def)
  have ms: "assigned_to ?as c = members points ?C c" for c
    unfolding as using C by (intro assigned_to_next_assignments) simp_all
  obtain e1 e2 where run:
    "serial_compute (serial_init s0 (length points) k iters) points k iters cs0 as0
        = Inr (e1, ?cs, ?as)"
    "framework_compute sched (framework_init f0 (length points) k iters) points k iters cs0 as0
        = Inr (e2, ?cs, ?as)"
    using both_engines_char [OF assms(1-3,6), of "serial_init s0 (length points) k iters"
        "framework_init f0 (length points) k iters" cs0 as0]
    by auto
  have "x (?cs ! c)
           = int64_div (sum_list (map (\<lambda>i. x (points ! i)) (assigned_to ?as c)))
               (word_of_nat (length (assigned_to ?as c))) \<and>
         y (?cs ! c)
           = int64_div (sum_list (map (\<lambda>i. y (points ! i)) (assigned_to ?as c)))
               (word_of_nat (length (assigned_to ?as c))) \<and>
         (length points < 2 ^ 63 \<and>
          int64_range (sum_list (map (\<lambda>i. sint (x (points ! i))) (assigned_to ?as c)))
          \<longrightarrow> sint (x (?cs ! c))
             = sum_list (map (\<lambda>i. sint (x (points ! i))) (assigned_to ?as c))
                 sdiv int (length (assigned_to ?as c))) \<and>
         (length points < 2 ^ 63 \<and>
          int64_range (sum_list (map (\<lambda>i. sint (y (points ! i))) (assigned_to ?as c)))
          \<longrightarrow> sint (y (?cs ! c))
             = sum_list (map (\<lambda>i. sint (y (points ! i))) (assigned_to ?as c))
                 sdiv int (length (assigned_to ?as c)))"
    if c: "c < k" and ne: "assigned_to ?as c \<noteq> []" for c
  proof -
    let ?ms = "members points ?C c"
    have ne': "?ms \<noteq> []" using ne ms by simp
    have "?cs ! c = mean_of points ?ms (?C ! c)"
      using c C by (simp add: m centroids_after_Suc next_centroids_nth)
    then have cs: "?cs ! c =
       \<lparr>x = int64_div (sum_list (map (\<lambda>i. x (points ! i)) ?ms)) (word_of_nat (length ?ms)),
        y = int64_div (sum_list (map (\<lambda>i. y (points ! i)) ?ms)) (word_of_nat (length ?ms))\<rparr>"
      using mean_of_nonempty [OF ne' assms(5)] by simp
    have len: "length points < 2 ^ 63 \<Longrightarrow> length ?ms < 2 ^ 63"
      using length_members [of points ?C c] by simp
    show ?thesis
      unfolding ms cs using ne' len by (simp add: sint_mean)
  qed
  with run show ?thesis by blast
qed

theorem centroid_is_truncated_mean_witness:
  "(1::nat) \<le> 2 \<and> (2::nat) \<le> 256 \<and> 2 \<le> length scenario_points \<and> (1::nat) \<le> 1
   \<and> length scenario_points < 2 ^ 64
   \<and> valid_schedule (length scenario_points) 2 (backwards 4 2)
   \<and> (\<exists>e1 e2 centroids assignments.
      serial_compute (serial_init \<lparr>sums = [], counts = []\<rparr> (length scenario_points) 2 1) scenario_points 2 1 [] []
        = Inr (e1, centroids, assignments) \<and>
      framework_compute (\<lambda>j. backwards 4 2) (framework_init \<lparr>temp_assignments = [], POINTS_SIZE = 0\<rparr> (length scenario_points) 2 1) scenario_points 2 1 [] []
        = Inr (e2, centroids, assignments) \<and>
      (\<forall>c < 2. assigned_to assignments c \<noteq> [] \<longrightarrow>
         x (centroids ! c)
           = int64_div (sum_list (map (\<lambda>i. x (scenario_points ! i)) (assigned_to assignments c)))
               (word_of_nat (length (assigned_to assignments c))) \<and>
         y (centroids ! c)
           = int64_div (sum_list (map (\<lambda>i. y (scenario_points ! i)) (assigned_to assignments c)))
               (word_of_nat (length (assigned_to assignments c))) \<and>
         (length scenario_points < 2 ^ 63 \<and>
          int64_range (sum_list (map (\<lambda>i. sint (x (scenario_points ! i))) (assigned_to assignments c)))
          \<longrightarrow> sint (x (centroids ! c))
             = sum_list (map (\<lambda>i. sint (x (scenario_points ! i))) (assigned_to assignments c))
                 sdiv int (length (assigned_to assignments c))) \<and>
         (length scenario_points < 2 ^ 63 \<and>
          int64_range (sum_list (map (\<lambda>i. sint (y (scenario_points ! i))) (assigned_to assignments c)))
          \<longrightarrow> sint (y (centroids ! c))
             = sum_list (map (\<lambda>i. sint (y (scenario_points ! i))) (assigned_to assignments c))
                 sdiv int (length (assigned_to assignments c)))))"
proof -
  have k: "(1::nat) \<le> 2" "(2::nat) \<le> 256" "2 \<le> length scenario_points" "(1::nat) \<le> 1"
    "length scenario_points < 2 ^ 64"
    by (simp_all add: scenario_points_def)
  have v: "\<forall>j < (1::nat). valid_schedule (length scenario_points) 2 (backwards 4 2)"
    by (simp add: valid_backwards_scenario)
  show ?thesis
    using k valid_backwards_scenario
      centroid_is_truncated_mean [OF k v, where ?s0.0 = "\<lparr>sums = [], counts = []\<rparr>"
        and ?f0.0 = "\<lparr>temp_assignments = [], POINTS_SIZE = 0\<rparr>" and ?cs0.0 = "[]" and ?as0.0 = "[]"]
    by blast
qed

section \<open>Clusters without members\<close>

lemma members_empty:
  assumes "cs \<noteq> []" "\<forall>i < length points. getNearestCluster (points ! i) cs \<noteq> Inr c"
  shows "members points cs c = []"
  using assms by (auto simp: members_def getNearestCluster_eq filter_empty_conv)

lemma valid_in_order: "valid_schedule n k in_order"
  by (simp add: valid_schedule_def in_order_def)

lemma twin_nearest:
  "\<forall>i < length twin_points. getNearestCluster (twin_points ! i) twin_points \<noteq> Inr 1"
  by (simp add: twin_points_def getNearestCluster_def nearest_step_def distance_def
      less_Suc_eq)

section \<open>C4: an empty cluster keeps its centroid\<close>

text \<open>
  C4. For \<open>1 \<le> k \<le> 256\<close> and \<open>k \<le> points.size()\<close>: one pass of the refinement loop of either
  engine, started from any \<open>k\<close> centroids with the engine's storage in place, leaves the
  centroid of every cluster \<open>c\<close> that no point is nearest to as it was at the start of the
  pass. Consequently, when no point is assigned to \<open>c\<close> by a run of \<open>m + 1\<close> passes, the
  centroid it returns for \<open>c\<close> is the one its last pass started from, which is what a run of
  \<open>m\<close> passes returns.
\<close>
theorem empty_cluster_keeps_centroid:
  assumes "1 \<le> k" "k \<le> 256" "k \<le> length points"
    and "\<forall>j \<le> m. valid_schedule (length points) k (sched j)"
  shows
    "(\<forall>s f centroids assignments iters sch c.
        serial_ready k s \<and> framework_ready (length points) k f \<and>
        valid_schedule (length points) k sch \<and>
        length centroids = k \<and> length assignments = length points \<and> c < k \<and>
        (\<forall>i < length points. getNearestCluster (points ! i) centroids \<noteq> Inr c) \<longrightarrow>
        (\<exists>s' f' centroids' as1 as2.
           serial_iteration points k (s, centroids, assignments) = Inr (s', centroids', as1) \<and>
           framework_iteration points k iters sch (f, centroids, assignments)
             = Inr (f', centroids', as2) \<and>
           centroids' ! c = centroids ! c))
     \<and> (\<exists>e1 e2 e3 start as1 final assignments.
        serial_compute (serial_init s0 (length points) k it) points k m cs0 as0
          = Inr (e1, start, as1) \<and>
        serial_compute (serial_init s0 (length points) k it) points k (Suc m) cs0 as0
          = Inr (e2, final, assignments) \<and>
        framework_compute sched (framework_init f0 (length points) k it) points k (Suc m) cs0 as0
          = Inr (e3, final, assignments) \<and>
        (\<forall>c < k. assigned_to assignments c = [] \<longrightarrow> final ! c = start ! c))"
proof (intro conjI allI impI)
  fix s f and centroids :: "point_t list" and assignments :: "asgn_t list" and iters sch c
  assume pre: "serial_ready k s \<and> framework_ready (length points) k f \<and>
        valid_schedule (length points) k sch \<and>
        length centroids = k \<and> length assignments = length points \<and> c < k \<and>
        (\<forall>i < length points. getNearestCluster (points ! i) centroids \<noteq> Inr c)"
  then have ne: "centroids \<noteq> []" using assms(1) by auto
  obtain s' where s': "serial_iteration points k (s, centroids, assignments)
      = Inr (s', next_centroids points centroids, next_assignments points centroids)"
    using serial_iteration_char [of centroids k s assignments points] pre ne
    by (auto simp: serial_ready_def)
  obtain f' where f': "framework_iteration points k iters sch (f, centroids, assignments)
      = Inr (f', next_centroids points centroids,
             if iters = 0 then next_assignments points centroids else assignments)"
    using framework_iteration_char [of centroids k f points assignments sch iters] pre ne assms(2)
    by (auto simp: framework_ready_def)
  have "members points centroids c = []"
    using pre ne by (intro members_empty) simp_all
  then have "next_centroids points centroids ! c = centroids ! c"
    using pre by (simp add: next_centroids_nth mean_of_empty)
  with s' f' show "\<exists>s' f' centroids' as1 as2.
           serial_iteration points k (s, centroids, assignments) = Inr (s', centroids', as1) \<and>
           framework_iteration points k iters sch (f, centroids, assignments)
             = Inr (f', centroids', as2) \<and>
           centroids' ! c = centroids ! c"
    by blast
next
  let ?C = "centroids_after points k m"
  let ?as = "assignments_after points k (Suc m) (resize (length points) 0 as0)"
  have C: "?C \<noteq> []" "length ?C = k" "length ?C \<le> 256"
    using assms by (simp_all add: centroids_after_nonempty)
  have v: "\<forall>j < m. valid_schedule (length points) k (sched j)"
    "\<forall>j < Suc m. valid_schedule (length points) k (sched j)"
    using assms(4) by simp_all
  obtain e1 where r1: "serial_compute (serial_init s0 (length points) k it) points k m cs0 as0
        = Inr (e1, ?C, assignments_after points k m (resize (length points) 0 as0))"
    using both_engines_char [OF assms(1-3) v(1), of "serial_init s0 (length points) k it"
        "framework_init f0 (length points) k it" cs0 as0]
    by auto
  obtain e2 e3 where r2:
    "serial_compute (serial_init s0 (length points) k it) points k (Suc m) cs0 as0
        = Inr (e2, centroids_after points k (Suc m), ?as)"
    "framework_compute sched (framework_init f0 (length points) k it) points k (Suc m) cs0 as0
        = Inr (e3, centroids_after points k (Suc m), ?as)"
    using both_engines_char [OF assms(1-3) v(2), of "serial_init s0 (length points) k it"
        "framework_init f0 (length points) k it" cs0 as0]
    by auto
  have "centroids_after points k (Suc m) ! c = ?C ! c" if "c < k" "assigned_to ?as c = []" for c
  proof -
    have "assigned_to ?as c = members points ?C c"
      using C by (simp add: assignments_after_def assigned_to_next_assignments)
    with that C show ?thesis
      by (simp add: centroids_after_Suc next_centroids_nth mean_of_empty)
  qed
  with r1 r2 show "\<exists>e1 e2 e3 start as1 final assignments.
        serial_compute (serial_init s0 (length points) k it) points k m cs0 as0
          = Inr (e1, start, as1) \<and>
        serial_compute (serial_init s0 (length points) k it) points k (Suc m) cs0 as0
          = Inr (e2, final, assignments) \<and>
        framework_compute sched (framework_init f0 (length points) k it) points k (Suc m) cs0 as0
          = Inr (e3, final, assignments) \<and>
        (\<forall>c < k. assigned_to assignments c = [] \<longrightarrow> final ! c = start ! c)"
    by blast
qed

theorem empty_cluster_keeps_centroid_witness:
  "(1::nat) \<le> 2 \<and> (2::nat) \<le> 256 \<and> 2 \<le> length twin_points
   \<and> valid_schedule (length twin_points) 2 in_order
   \<and> (\<exists>s' f' centroids' as1 as2.
         serial_iteration twin_points 2
           (serial_init \<lparr>sums = [], counts = []\<rparr> 2 2 1, twin_points, [0, 0])
           = Inr (s', centroids', as1) \<and>
         framework_iteration twin_points 2 0 in_order
           (framework_init \<lparr>temp_assignments = [], POINTS_SIZE = 0\<rparr> 2 2 1, twin_points, [0, 0])
           = Inr (f', centroids', as2) \<and>
         centroids' ! 1 = twin_points ! 1)
   \<and> (\<exists>e1 e2 e3 start as1 final assignments.
        serial_compute (serial_init \<lparr>sums = [], counts = []\<rparr> (length twin_points) 2 1)
            twin_points 2 0 [] []
          = Inr (e1, start, as1) \<and>
        serial_compute (serial_init \<lparr>sums = [], counts = []\<rparr> (length twin_points) 2 1)
            twin_points 2 (Suc 0) [] []
          = Inr (e2, final, assignments) \<and>
        framework_compute (\<lambda>j. in_order)
            (framework_init \<lparr>temp_assignments = [], POINTS_SIZE = 0\<rparr> (length twin_points) 2 1)
            twin_points 2 (Suc 0) [] []
          = Inr (e3, final, assignments) \<and>
        (\<forall>c < 2. assigned_to assignments c = [] \<longrightarrow> final ! c = start ! c))"
proof -
  have k: "(1::nat) \<le> 2" "(2::nat) \<le> 256" "2 \<le> length twin_points"
    by (simp_all add: twin_points_def)
  have v: "\<forall>j \<le> (0::nat). valid_schedule (length twin_points) 2 in_order"
    by (simp add: valid_in_order)
  note r = empty_cluster_keeps_centroid [OF k v, where ?s0.0 = "\<lparr>sums = [], counts = []\<rparr>"
        and ?f0.0 = "\<lparr>temp_assignments = [], POINTS_SIZE = 0\<rparr>" and ?cs0.0 = "[]"
        and ?as0.0 = "[]" and it = 1]
  have len: "length twin_points = 2" by (simp add: twin_points_def)
  have pre: "serial_ready 2 (serial_init \<lparr>sums = [], counts = []\<rparr> 2 2 1) \<and>
        framework_ready (length twin_points) 2
          (framework_init \<lparr>temp_assignments = [], POINTS_SIZE = 0\<rparr> 2 2 1) \<and>
        valid_schedule (length twin_points) 2 in_order \<and>
        length twin_points = 2 \<and> length [0, 0 :: asgn_t] = length twin_points \<and> (1::nat) < 2 \<and>
        (\<forall>i < length twin_points. getNearestCluster (twin_points ! i) twin_points \<noteq> Inr 1)"
    using twin_nearest by (simp add: valid_in_order len)
  from r have a: "\<exists>s' f' centroids' as1 as2.
         serial_iteration twin_points 2
           (serial_init \<lparr>sums = [], counts = []\<rparr> 2 2 1, twin_points, [0, 0])
           = Inr (s', centroids', as1) \<and>
         framework_iteration twin_points 2 0 in_order
           (framework_init \<lparr>temp_assignments = [], POINTS_SIZE = 0\<rparr> 2 2 1, twin_points, [0, 0])
           = Inr (f', centroids', as2) \<and>
         centroids' ! 1 = twin_points ! 1"
    using pre by blast
  show ?thesis
    using k valid_in_order [of "length twin_points" 2] a r by blast
qed

section \<open>C3: nearest-centroid search\<close>

text \<open>
  C3, as stated, fails: the differences, squares and sum are 64-bit values that wrap. From
  the point \<open>(0, 0)\<close> the centroid \<open>(3037000500, 0)\<close> gets a negative distance, and the search
  prefers it to a centroid that lies on the point itself.
\<close>
theorem nearest_wraps_counterexample:
  "getNearestCluster \<lparr>x = 0, y = 0\<rparr> [\<lparr>x = 3037000500, y = 0\<rparr>, \<lparr>x = 0, y = 0\<rparr>] = Inr 0
   \<and> sint (distance \<lparr>x = 0, y = 0\<rparr> \<lparr>x = 3037000500, y = 0\<rparr>) < 0
   \<and> sq_euclid \<lparr>x = 0, y = 0\<rparr> \<lparr>x = 0, y = 0\<rparr>
       < sq_euclid \<lparr>x = 0, y = 0\<rparr> \<lparr>x = 3037000500, y = 0\<rparr>"
  by (simp add: getNearestCluster_def nearest_step_def distance_def sq_euclid_def word_sless_alt)

text \<open>
  C3, amended. For every point and every non-empty list of centroids the search returns the
  smallest index whose distance value, as the code computes it in 64 bits and compares it
  as a signed number, is minimal. When every coordinate of the point and of the centroids
  lies in \<open>[-2^30, 2^30)\<close>, that value is the squared Euclidean distance, exact and not
  negative, so the search returns the smallest index of a centroid at minimal squared
  Euclidean distance: of two centroids equally far from the point, the lower index.
\<close>
theorem nearest_is_least_minimal_index:
  assumes "centroids \<noteq> []"
  shows "\<exists>n. getNearestCluster p centroids = Inr n \<and> n < length centroids \<and>
     (\<forall>j < length centroids. distance p (centroids ! n) \<le>s distance p (centroids ! j)) \<and>
     (\<forall>j < n. distance p (centroids ! n) <s distance p (centroids ! j)) \<and>
     (point_ok p \<and> list_all point_ok centroids \<longrightarrow>
        (\<forall>j < length centroids.
           sint (distance p (centroids ! j)) = sq_euclid p (centroids ! j) \<and>
           0 \<le> sint (distance p (centroids ! j)) \<and>
           sq_euclid p (centroids ! n) \<le> sq_euclid p (centroids ! j)) \<and>
        (\<forall>j < n. sq_euclid p (centroids ! n) < sq_euclid p (centroids ! j)))"
proof -
  let ?n = "nearest_index p centroids"
  note props = nearest_index_props [OF assms, of p]
  have exact: "sint (distance p (centroids ! j)) = sq_euclid p (centroids ! j)"
    if "point_ok p" "list_all point_ok centroids" "j < length centroids" for j
    using that by (intro sint_distance_exact) (simp_all add: list_all_length)
  have nonneg: "0 \<le> sq_euclid p c" for c
    by (simp add: sq_euclid_def)
  have euclid: "(\<forall>j < length centroids.
           sint (distance p (centroids ! j)) = sq_euclid p (centroids ! j) \<and>
           0 \<le> sint (distance p (centroids ! j)) \<and>
           sq_euclid p (centroids ! ?n) \<le> sq_euclid p (centroids ! j)) \<and>
        (\<forall>j < ?n. sq_euclid p (centroids ! ?n) < sq_euclid p (centroids ! j))"
    if ok: "point_ok p \<and> list_all point_ok centroids"
  proof (intro conjI allI impI)
    fix j assume j: "j < length centroids"
    show "sint (distance p (centroids ! j)) = sq_euclid p (centroids ! j)"
      using ok j exact by simp
    then show "0 \<le> sint (distance p (centroids ! j))"
      using nonneg by simp
    show "sq_euclid p (centroids ! ?n) \<le> sq_euclid p (centroids ! j)"
      using props(1,2) ok j exact [of ?n] exact [of j] by (auto simp: word_sle_eq)
  next
    fix j assume j: "j < ?n"
    then have "j < length centroids" using props(1) by simp
    then show "sq_euclid p (centroids ! ?n) < sq_euclid p (centroids ! j)"
      using props(1,3) ok j exact [of ?n] exact [of j] by (auto simp: word_sless_alt)
  qed
  have "getNearestCluster p centroids = Inr ?n"
    using assms by (simp add: getNearestCluster_eq)
  with props euclid show ?thesis by blast
qed

theorem nearest_is_least_minimal_index_witness:
  "[\<lparr>x = 0, y = 0\<rparr>, \<lparr>x = 10, y = 0\<rparr>] \<noteq> []
   \<and> (\<exists>n. getNearestCluster \<lparr>x = 5, y = 0\<rparr> [\<lparr>x = 0, y = 0\<rparr>, \<lparr>x = 10, y = 0\<rparr>] = Inr n
        \<and> n = 0
        \<and> sq_euclid \<lparr>x = 5, y = 0\<rparr> ([\<lparr>x = 0, y = 0\<rparr>, \<lparr>x = 10, y = 0\<rparr>] ! 1)
            = sq_euclid \<lparr>x = 5, y = 0\<rparr> ([\<lparr>x = 0, y = 0\<rparr>, \<lparr>x = 10, y = 0\<rparr>] ! n))"
proof -
  have ne: "[\<lparr>x = 0, y = 0\<rparr>, \<lparr>x = 10, y = 0\<rparr>] \<noteq> []" by simp
  have ok: "point_ok \<lparr>x = 5, y = 0\<rparr> \<and> list_all point_ok [\<lparr>x = 0, y = 0\<rparr>, \<lparr>x = 10, y = 0\<rparr>]"
    by (simp add: point_ok_def coord_ok_def)
  obtain n where n: "getNearestCluster \<lparr>x = 5, y = 0\<rparr> [\<lparr>x = 0, y = 0\<rparr>, \<lparr>x = 10, y = 0\<rparr>] = Inr n"
    "n < length [\<lparr>x = 0, y = 0\<rparr>, \<lparr>x = 10, y = 0 :: coord_t\<rparr>]"
    "\<forall>j < n. sq_euclid \<lparr>x = 5, y = 0\<rparr> ([\<lparr>x = 0, y = 0\<rparr>, \<lparr>x = 10, y = 0\<rparr>] ! n)
        < sq_euclid \<lparr>x = 5, y = 0\<rparr> ([\<lparr>x = 0, y = 0\<rparr>, \<lparr>x = 10, y = 0\<rparr>] ! j)"
    using nearest_is_least_minimal_index [OF ne, of "\<lparr>x = 5, y = 0\<rparr>"] ok by blast
  have "n = 0"
  proof (rule ccontr)
    assume "n \<noteq> 0"
    then have "n = 1" using n(2) by simp
    with n(3) [rule_format, of 0] show False by (simp add: sq_euclid_def)
  qed
  with n(1) show ?thesis by (simp add: sq_euclid_def)
qed

section \<open>C6: the four-point scenario\<close>

text \<open>
  C6, as stated, fails: the point \<open>(10, 0)\<close> is the second seed, at distance 0 from itself,
  so it is assigned to cluster 1 and not to cluster 0, and the run does not return the
  centroids \<open>(3, 3)\<close> and \<open>(10, 10)\<close> with the assignments \<open>0, 0, 0, 1\<close>.
\<close>
theorem scenario_counterexample:
  "\<not> (\<exists>e. serial_compute (serial_init \<lparr>sums = [], counts = []\<rparr> 4 2 1) scenario_points 2 1 [] []
          = Inr (e, [\<lparr>x = 3, y = 3\<rparr>, \<lparr>x = 10, y = 10\<rparr>], [0, 0, 0, 1]))"
proof -
  have "serial_compute (serial_init \<lparr>sums = [], counts = []\<rparr> 4 2 1) scenario_points 2 1 [] []
      = Inr (\<lparr>sums = [\<lparr>x = 0, y = 10\<rparr>, \<lparr>x = 20, y = 10\<rparr>], counts = [2, 2]\<rparr>,
             [\<lparr>x = 0, y = 5\<rparr>, \<lparr>x = 10, y = 5\<rparr>], [0, 1, 0, 1])"
    by code_simp
  then show ?thesis by simp
qed

text \<open>
  C6, amended. For the points \<open>(0,0), (10,0), (0,10), (10,10)\<close> with \<open>k = 2\<close> and one
  iteration, \<open>compute\<close> seeds the centroids \<open>(0,0)\<close> and \<open>(10,0)\<close>, assigns \<open>(0,0)\<close> and \<open>(0,10)\<close>
  to cluster 0 and \<open>(10,0)\<close> and \<open>(10,10)\<close> to cluster 1, and returns the centroids \<open>(0,5)\<close> and
  \<open>(10,5)\<close>; the concurrent engine returns the same under the schedule that runs backwards.
\<close>
theorem scenario_result:
  "for_each [0 ..< 2] (seed_body scenario_points) (resize 2 origin [])
     = Inr [\<lparr>x = 0, y = 0\<rparr>, \<lparr>x = 10, y = 0\<rparr>]
   \<and> serial_compute (serial_init \<lparr>sums = [], counts = []\<rparr> 4 2 1) scenario_points 2 1 [] []
     = Inr (\<lparr>sums = [\<lparr>x = 0, y = 10\<rparr>, \<lparr>x = 20, y = 10\<rparr>], counts = [2, 2]\<rparr>,
            [\<lparr>x = 0, y = 5\<rparr>, \<lparr>x = 10, y = 5\<rparr>], [0, 1, 0, 1])
   \<and> framework_compute (\<lambda>j. backwards 4 2)
        (framework_init \<lparr>temp_assignments = [], POINTS_SIZE = 0\<rparr> 4 2 1) scenario_points 2 1 [] []
     = Inr (\<lparr>temp_assignments = [[\<lparr>x = 0, y = 10\<rparr>, \<lparr>x = 0, y = 0\<rparr>],
                                   [\<lparr>x = 10, y = 10\<rparr>, \<lparr>x = 10, y = 0\<rparr>]],
             POINTS_SIZE = 4\<rparr>,
            [\<lparr>x = 0, y = 5\<rparr>, \<lparr>x = 10, y = 5\<rparr>], [0, 1, 0, 1])"
  by code_simp

section \<open>Points that are their own centroids\<close>

lemma sq_euclid_zero:
  assumes "sq_euclid p c = 0"
  shows "p = c"
proof -
  let ?dx = "sint (x p) - sint (x c)" and ?dy = "sint (y p) - sint (y c)"
  have "?dx ^ 2 + ?dy ^ 2 = 0" using assms by (simp add: sq_euclid_def)
  then have "?dx = 0" "?dy = 0"
    by (simp_all add: sum_power2_eq_zero_iff)
  then have "x p = x c" "y p = y c" by (simp_all add: signed_word_eqI)
  then show ?thesis by simp
qed

lemma nearest_own_index:
  assumes "distinct points" "list_all point_ok points" "i < length points"
  shows "nearest_index (points ! i) points = i"
proof -
  let ?n = "nearest_index (points ! i) points"
  have ne: "points \<noteq> []" using assms(3) by auto
  note props = nearest_index_props [OF ne, of "points ! i"]
  have ok: "point_ok (points ! j)" if "j < length points" for j
    using assms(2) that by (simp add: list_all_length)
  have "distance (points ! i) (points ! ?n) \<le>s distance (points ! i) (points ! i)"
    using props(2) assms(3) by simp
  then have "sq_euclid (points ! i) (points ! ?n) \<le> sq_euclid (points ! i) (points ! i)"
    using sint_distance_exact [OF ok [OF assms(3)] ok [OF props(1)]]
      sint_distance_exact [OF ok [OF assms(3)] ok [OF assms(3)]]
    by (simp add: word_sle_eq)
  moreover have "sq_euclid (points ! i) (points ! i) = 0" by (simp add: sq_euclid_def)
  moreover have "0 \<le> sq_euclid (points ! i) (points ! ?n)" by (simp add: sq_euclid_def)
  ultimately have "sq_euclid (points ! i) (points ! ?n) = 0" by simp
  then have "points ! i = points ! ?n" by (rule sq_euclid_zero)
  then show ?thesis
    using assms(1,3) props(1) by (simp add: nth_eq_iff_index_eq)
qed

lemma int64_div_one: "int64_div v 1 = v"
proof -
  have "sint v sdiv 1 = sint v"
    by (simp add: signed_divide_int_def mult_sgn_abs)
  then show ?thesis by (simp add: int64_div_def)
qed

lemma members_own:
  assumes "distinct points" "list_all point_ok points" "c < length points"
  shows "members points points c = [c]"
proof -
  have "filter (\<lambda>i. nearest_index (points ! i) points = c) [0 ..< length points]
      = filter (\<lambda>i. i = c) [0 ..< length points]"
    using assms by (intro filter_cong) (auto simp: nearest_own_index)
  also have "\<dots> = [c]"
    using assms(3) by (induction points rule: rev_induct) (auto simp: less_Suc_eq)
  finally show ?thesis by (simp add: members_def)
qed

lemma next_centroids_own:
  assumes "distinct points" "list_all point_ok points"
  shows "next_centroids points points = points"
proof (rule nth_equalityI)
  show "length (next_centroids points points) = length points" by simp
next
  fix c assume "c < length (next_centroids points points)"
  then have c: "c < length points" by simp
  then show "next_centroids points points ! c = points ! c"
    by (simp add: next_centroids_nth members_own [OF assms c] mean_of_def coord_sum_def
        int64_div_one)
qed

lemma next_assignments_own:
  assumes "distinct points" "list_all point_ok points"
  shows "next_assignments points points = map word_of_nat [0 ..< length points]"
  using assms by (auto simp: next_assignments_def nearest_own_index)

lemma centroids_after_own:
  assumes "distinct points" "list_all point_ok points"
  shows "centroids_after points (length points) m = points"
  by (induction m) (simp_all add: centroids_after_def next_centroids_own [OF assms])

section \<open>C9: as many clusters as points\<close>

text \<open>
  C9, as stated, fails when two input points coincide: both are nearest to the centroid of
  the lower index. For the points \<open>(0,0), (0,0)\<close> with \<open>k = 2\<close> and one iteration the
  assignments are \<open>0, 0\<close> and not \<open>0, 1\<close>. It fails as well for two different points whose
  64-bit distance wraps to 0: for \<open>(0,0), (2^32,0)\<close> the assignments are \<open>0, 0\<close> again and
  the first centroid moves to \<open>(2^31, 0)\<close>.
\<close>
theorem twin_points_counterexample:
  "serial_compute (serial_init \<lparr>sums = [], counts = []\<rparr> 2 2 1) twin_points 2 1 [] []
     = Inr (\<lparr>sums = [\<lparr>x = 0, y = 0\<rparr>, \<lparr>x = 0, y = 0\<rparr>], counts = [2, 0]\<rparr>,
            [\<lparr>x = 0, y = 0\<rparr>, \<lparr>x = 0, y = 0\<rparr>], [0, 0])
   \<and> [0, 0] \<noteq> (map word_of_nat [0 ..< 2] :: asgn_t list)
   \<and> serial_compute (serial_init \<lparr>sums = [], counts = []\<rparr> 2 2 1)
        [\<lparr>x = 0, y = 0\<rparr>, \<lparr>x = 4294967296, y = 0\<rparr>] 2 1 [] []
     = Inr (\<lparr>sums = [\<lparr>x = 4294967296, y = 0\<rparr>, \<lparr>x = 0, y = 0\<rparr>], counts = [2, 0]\<rparr>,
            [\<lparr>x = 2147483648, y = 0\<rparr>, \<lparr>x = 4294967296, y = 0\<rparr>], [0, 0])"
  by code_simp

text \<open>
  C9, amended. For every input where \<open>k\<close> equals the number of points, \<open>1 \<le> k \<le> 256\<close>,
  \<open>iters \<ge> 1\<close>, the points are pairwise different and their coordinates lie in
  \<open>[-2^30, 2^30)\<close>, \<open>compute\<close> of either engine returns the assignments \<open>0, 1, ..., k-1\<close> and
  the input points as centroids, however many iterations are run.
\<close>
theorem every_point_its_own_cluster:
  assumes "k = length points" "1 \<le> k" "k \<le> 256" "1 \<le> iters"
    and "distinct points" "list_all point_ok points"
    and "\<forall>j < iters. valid_schedule (length points) k (sched j)"
  shows "\<exists>e1 e2.
      serial_compute (serial_init s0 (length points) k iters) points k iters cs0 as0
        = Inr (e1, points, map word_of_nat [0 ..< k]) \<and>
      framework_compute sched (framework_init f0 (length points) k iters) points k iters cs0 as0
        = Inr (e2, points, map word_of_nat [0 ..< k])"
proof -
  obtain m where m: "iters = Suc m" using assms(4) by (cases iters) auto
  have k: "k \<le> length points" using assms(1) by simp
  have cs: "centroids_after points k n = points" for n
    unfolding assms(1) by (rule centroids_after_own [OF assms(5,6)])
  have "assignments_after points k iters (resize (length points) 0 as0)
      = map word_of_nat [0 ..< k]"
    unfolding m assignments_after_def nat.case assms(1) centroids_after_own [OF assms(5,6)]
    by (rule next_assignments_own [OF assms(5,6)])
  then show ?thesis
    using both_engines_char [OF assms(2,3) k assms(7), of "serial_init s0 (length points) k iters"
        "framework_init f0 (length points) k iters" cs0 as0]
    by (simp add: cs)
qed

theorem every_point_its_own_cluster_witness:
  "4 = length scenario_points \<and> (1::nat) \<le> 4 \<and> (4::nat) \<le> 256 \<and> (1::nat) \<le> 3
   \<and> distinct scenario_points \<and> list_all point_ok scenario_points
   \<and> valid_schedule (length scenario_points) 4 in_order
   \<and> (\<exists>e1 e2.
      serial_compute (serial_init \<lparr>sums = [], counts = []\<rparr> (length scenario_points) 4 3)
          scenario_points 4 3 [] []
        = Inr (e1, scenario_points, map word_of_nat [0 ..< 4]) \<and>
      framework_compute (\<lambda>j. in_order)
          (framework_init \<lparr>temp_assignments = [], POINTS_SIZE = 0\<rparr> (length scenario_points) 4 3)
          scenario_points 4 3 [] []
        = Inr (e2, scenario_points, map word_of_nat [0 ..< 4]))"
proof -
  have k: "4 = length scenario_points" "(1::nat) \<le> 4" "(4::nat) \<le> 256" "(1::nat) \<le> 3"
    "distinct scenario_points" "list_all point_ok scenario_points"
    by (simp_all add: scenario_points_def point_ok_def coord_ok_def)
  have v: "\<forall>j < (3::nat). valid_schedule (length scenario_points) 4 in_order"
    by (simp add: valid_in_order)
  show ?thesis
    using k valid_in_order [of "length scenario_points" 4]
      every_point_its_own_cluster [OF k v, where ?s0.0 = "\<lparr>sums = [], counts = []\<rparr>"
        and ?f0.0 = "\<lparr>temp_assignments = [], POINTS_SIZE = 0\<rparr>" and ?cs0.0 = "[]"
        and ?as0.0 = "[]"]
    by blast
qed

section \<open>A call that runs no iteration\<close>

lemma compute_without_iterations:
  assumes "k \<le> length points"
  shows "serial_compute s points k 0 cs0 as0
           = Inr (s, take k points, resize (length points) 0 as0)"
    and "framework_compute sched f points k 0 cs0 as0
           = Inr (f, take k points, resize (length points) 0 as0)"
proof -
  have "for_each [0 ..< k] (seed_body points) (resize k origin cs0) = Inr (take k points)"
    using assms by (intro seed_ok) simp_all
  then show "serial_compute s points k 0 cs0 as0
           = Inr (s, take k points, resize (length points) 0 as0)"
    and "framework_compute sched f points k 0 cs0 as0
           = Inr (f, take k points, resize (length points) 0 as0)"
    by (simp_all add: serial_compute_def framework_compute_def)
qed

section \<open>C5: configuration errors\<close>

text \<open>
  C5, as stated, fails: neither engine checks its arguments. With an iteration count of 0
  the sequential engine returns a centroid and an assignment and reports nothing.
\<close>
theorem zero_iterations_counterexample:
  "serial_compute (serial_init \<lparr>sums = [], counts = []\<rparr> 1 1 0) [\<lparr>x = 1, y = 2\<rparr>] 1 0 [] []
     = Inr (\<lparr>sums = [\<lparr>x = 0, y = 0\<rparr>], counts = [0]\<rparr>, [\<lparr>x = 1, y = 2\<rparr>], [0])"
  by code_simp

text \<open>
  C5, amended. \<open>init\<close> and \<open>compute\<close> of the core engines have no error path and validate
  nothing. With an iteration count of 0 and \<open>k \<le> points.size()\<close> (\<open>k = 0\<close> included)
  \<open>compute\<close> of either engine returns normally: the first \<open>k\<close> points as centroids, the
  assignment vector resized and otherwise untouched, the engine as it was. The
  configuration errors \<open>k = 0\<close>, iteration count \<open>0\<close> and \<open>k > 256\<close> are rejected by the
  command-line harness, which prints its usage text and returns before any engine is built.
\<close>
theorem engines_validate_nothing:
  "(k \<le> length points \<longrightarrow>
      serial_compute s points k 0 cs0 as0
        = Inr (s, take k points, resize (length points) 0 as0) \<and>
      framework_compute sched f points k 0 cs0 as0
        = Inr (f, take k points, resize (length points) 0 as0))
   \<and> (k = 0 \<or> iters = 0 \<or> 256 < k \<longrightarrow> kmeans_main sched p0 points k iters = Inr Usage)"
  by (auto simp: kmeans_main_def compute_without_iterations)

theorem engines_validate_nothing_witness:
  "(0::nat) \<le> length [\<lparr>x = 1, y = 2\<rparr>]
   \<and> serial_compute (serial_init \<lparr>sums = [], counts = []\<rparr> 1 0 0) [\<lparr>x = 1, y = 2\<rparr>] 0 0 [] []
        = Inr (serial_init \<lparr>sums = [], counts = []\<rparr> 1 0 0, take 0 [\<lparr>x = 1, y = 2\<rparr>],
               resize (length [\<lparr>x = 1, y = 2 :: coord_t\<rparr>]) 0 [])
   \<and> framework_compute (\<lambda>j. in_order)
          (framework_init \<lparr>temp_assignments = [], POINTS_SIZE = 0\<rparr> 1 0 0) [\<lparr>x = 1, y = 2\<rparr>] 0 0 [] []
        = Inr (framework_init \<lparr>temp_assignments = [], POINTS_SIZE = 0\<rparr> 1 0 0,
               take 0 [\<lparr>x = 1, y = 2\<rparr>], resize (length [\<lparr>x = 1, y = 2 :: coord_t\<rparr>]) 0 [])
   \<and> kmeans_main (\<lambda>j. in_order) 0 [\<lparr>x = 1, y = 2\<rparr>] 0 0 = Inr Usage"
  using engines_validate_nothing [of 0 "[\<lparr>x = 1, y = 2\<rparr>]"
      "serial_init \<lparr>sums = [], counts = []\<rparr> 1 0 0" "[]" "[]" "\<lambda>j. in_order"
      "framework_init \<lparr>temp_assignments = [], POINTS_SIZE = 0\<rparr> 1 0 0" 0 0]
  by simp

section \<open>C8: the size of the working storage after \<open>init\<close>\<close>

text \<open>
  C8 (after every call of \<open>init\<close>, a repeated one included, the per-cluster working storage
  has size exactly \<open>k\<close>) holds for the sequential engine, which resizes, and fails for the
  concurrent engine, which appends: after \<open>init\<close> with \<open>k = 2\<close> and then \<open>init\<close> with \<open>k = 3\<close>
  the concurrent engine holds five accumulators, the two of the first call and three more,
  where the sequential engine holds three sums and three counts.
\<close>
theorem reinit_appends:
  "length (temp_assignments
      (framework_init (framework_init \<lparr>temp_assignments = [], POINTS_SIZE = 0\<rparr> 4 2 1) 4 3 1)) = 5
   \<and> length (sums (serial_init (serial_init \<lparr>sums = [], counts = []\<rparr> 4 2 1) 4 3 1)) = 3
   \<and> length (counts (serial_init (serial_init \<lparr>sums = [], counts = []\<rparr> 4 2 1) 4 3 1)) = 3"
  by (simp add: framework_init_def serial_init_def resize_def)

section \<open>Runs on more points than were recorded, and on fewer\<close>

lemma for_each_cong:
  assumes "\<And>i s. i \<in> set js \<Longrightarrow> f i s = g i s"
  shows "for_each js f s = for_each js g s"
  using assms by (induction js arbitrary: s) (auto simp: and_then_def split: sum.splits)

lemma for_each_preserves:
  assumes "for_each js body s = Inr t" "P s"
    and "\<And>i s t. body i s = Inr t \<Longrightarrow> P s \<Longrightarrow> P t"
  shows "P t"
  using assms(1,2)
proof (induction js arbitrary: s)
  case Nil
  then show ?case by simp
next
  case (Cons i js)
  then obtain u where u: "body i s = Inr u" "for_each js body u = Inr t"
    by (auto simp: and_then_def split: sum.splits)
  then show ?case using Cons assms(3) by blast
qed

lemma for_each_rel:
  assumes "R s t"
    and "\<And>i s t. i \<in> set js \<Longrightarrow> R s t \<Longrightarrow> rel_sum (=) R (f i s) (g i t)"
  shows "rel_sum (=) R (for_each js f s) (for_each js g t)"
  using assms
proof (induction js arbitrary: s t)
  case Nil
  then show ?case by simp
next
  case (Cons i js)
  have step: "rel_sum (=) R (f i s) (g i t)"
    using Cons.prems by simp
  show ?case
  proof (cases "f i s")
    case (Inl a)
    with step show ?thesis by (cases "g i t") simp_all
  next
    case (Inr u)
    with step obtain v where v: "g i t = Inr v" "R u v" by (cases "g i t") simp_all
    have "rel_sum (=) R (for_each js f u) (for_each js g v)"
      using v(2) Cons.prems(2) by (intro Cons.IH) simp_all
    with Inr v show ?thesis by simp
  qed
qed

lemma take_resize: "n \<le> m \<Longrightarrow> take n (resize m d xs) = resize n d xs"
  by (intro nth_equalityI) (simp_all add: nth_resize)

lemma clear_keeps_size:
  assumes "for_each js framework_clear_body e = Inr e1"
  shows "POINTS_SIZE e1 = POINTS_SIZE e"
proof -
  have "POINTS_SIZE e1 = POINTS_SIZE e"
    using assms
  proof (rule for_each_preserves [where P = "\<lambda>u. POINTS_SIZE u = POINTS_SIZE e"])
    show "POINTS_SIZE e = POINTS_SIZE e" by simp
  next
    fix i s t
    assume "framework_clear_body i s = Inr t" "POINTS_SIZE s = POINTS_SIZE e"
    then show "POINTS_SIZE t = POINTS_SIZE e"
      by (auto simp: framework_clear_body_def split: if_splits)
  qed
  then show ?thesis .
qed

lemma assign_body_trailing:
  assumes "i < n" "n \<le> length points" "length a = n"
  shows "framework_assign_body points cs it i (e, a @ rest)
     = map_sum id (\<lambda>(e', a'). (e', a' @ rest))
         (framework_assign_body (take n points) cs it i (e, a))
     \<and> (\<forall>e' a'. framework_assign_body (take n points) cs it i (e, a) = Inr (e', a')
            \<longrightarrow> length a' = n \<and> POINTS_SIZE e' = POINTS_SIZE e)"
  using assms
  by (auto simp: framework_assign_body_def and_then_def Let_def list_update_append
      split: sum.splits)

lemma framework_iteration_trailing:
  assumes "POINTS_SIZE e = n" "n \<le> length points" "length a = n"
    and "set (map (assign_perm s) [0 ..< n]) \<subseteq> {..< n}"
  shows "rel_sum (=) (trailing n rest)
     (framework_iteration points k it s (e, cs, a @ rest))
     (framework_iteration (take n points) k it s (e, cs, a))"
proof (cases "for_each [0 ..< k] framework_clear_body e")
  case (Inl fl)
  then show ?thesis by (simp add: framework_iteration_def)
next
  case (Inr e1)
  have n1: "POINTS_SIZE e1 = n" using clear_keeps_size [OF Inr] assms(1) by simp
  let ?js = "map (assign_perm s) [0 ..< n]"
  let ?R = "\<lambda>(u :: framework_KMeans, b :: asgn_t list) (v :: framework_KMeans, c :: asgn_t list).
      u = v \<and> b = c @ rest \<and> length c = n \<and> POINTS_SIZE v = n"
  have rel: "rel_sum (=) ?R
      (for_each ?js (framework_assign_body points cs it) (e1, a @ rest))
      (for_each ?js (framework_assign_body (take n points) cs it) (e1, a))"
  proof (rule for_each_rel)
    show "?R (e1, a @ rest) (e1, a)" using assms(3) n1 by simp
  next
    fix i u v
    assume i: "i \<in> set ?js" and R: "?R u v"
    obtain e2 b where v: "v = (e2, b)" by (cases v)
    with R have u: "u = (e2, b @ rest)" and b: "length b = n" "POINTS_SIZE e2 = n"
      by auto
    have "i < n" using i assms(4) by auto
    from assign_body_trailing [OF this assms(2) b(1), of cs it e2 rest] b(2)
    show "rel_sum (=) ?R (framework_assign_body points cs it i u)
        (framework_assign_body (take n points) cs it i v)"
      unfolding u v
      by (cases "framework_assign_body (take n points) cs it i (e2, b)") auto
  qed
  show ?thesis
  proof (cases "for_each ?js (framework_assign_body (take n points) cs it) (e1, a)")
    case (Inl fl)
    with rel have "for_each ?js (framework_assign_body points cs it) (e1, a @ rest) = Inl fl"
      by (cases "for_each ?js (framework_assign_body points cs it) (e1, a @ rest)") simp_all
    with Inl Inr n1 show ?thesis
      by (simp add: framework_iteration_def parallel_for_def)
  next
    case r2: (Inr v)
    obtain e2 b where v: "v = (e2, b)" by (cases v)
    with rel r2 have r1: "for_each ?js (framework_assign_body points cs it) (e1, a @ rest)
        = Inr (e2, b @ rest)" and b: "length b = n" "POINTS_SIZE e2 = n"
      by (cases "for_each ?js (framework_assign_body points cs it) (e1, a @ rest)"; auto)+
    show ?thesis
      using Inr n1 r1 r2 v b
      by (cases "for_each (map (update_perm s) [0 ..< k])
                   (framework_update_body e2 (reduce_shape s)) cs")
        (simp_all add: framework_iteration_def parallel_for_def trailing_def)
  qed
qed

lemma framework_refine_trailing:
  assumes "POINTS_SIZE e = n" "n \<le> length points" "length a = n"
    and "\<forall>j < m. set (map (assign_perm (sched j)) [0 ..< n]) \<subseteq> {..< n}"
  shows "rel_sum (=) (trailing n rest)
     (framework_refine points k sched m (e, cs, a @ rest))
     (framework_refine (take n points) k sched m (e, cs, a))"
  using assms
proof (induction m arbitrary: e cs a)
  case 0
  then show ?case by (simp add: trailing_def)
next
  case (Suc m)
  have "set (map (assign_perm (sched m)) [0 ..< n]) \<subseteq> {..< n}"
    using Suc.prems(4) by simp
  note it = framework_iteration_trailing [OF Suc.prems(1-3) this, of rest k m cs]
  show ?case
  proof (cases "framework_iteration (take n points) k m (sched m) (e, cs, a)")
    case (Inl fl)
    with it have "framework_iteration points k m (sched m) (e, cs, a @ rest) = Inl fl"
      by (cases "framework_iteration points k m (sched m) (e, cs, a @ rest)") simp_all
    with Inl show ?thesis by simp
  next
    case (Inr v)
    obtain e2 c2 b where v: "v = (e2, c2, b)" by (cases v)
    with it Inr have r1: "framework_iteration points k m (sched m) (e, cs, a @ rest)
        = Inr (e2, c2, b @ rest)" and b: "length b = n" "POINTS_SIZE e2 = n"
      by (cases "framework_iteration points k m (sched m) (e, cs, a @ rest)";
          auto simp: trailing_def)+
    have "rel_sum (=) (trailing n rest)
        (framework_refine points k sched m (e2, c2, b @ rest))
        (framework_refine (take n points) k sched m (e2, c2, b))"
      using b Suc.prems by (intro Suc.IH) simp_all
    with Inr v r1 show ?thesis by simp
  qed
qed

lemma valid_schedule_range:
  assumes "valid_schedule n k s"
  shows "set (map (assign_perm s) [0 ..< n]) = {0 ..< n}"
  using assms by (metis valid_schedule_def mset_eq_setD set_upt)

lemma framework_refine_trailing_eq:
  assumes "POINTS_SIZE e \<le> length points" "length a = POINTS_SIZE e"
    and "\<forall>j < m. valid_schedule (POINTS_SIZE e) k (sched j)"
  shows "framework_refine points k sched m (e, cs, a @ rest) =
     (case framework_refine (take (POINTS_SIZE e) points) k sched m (e, cs, a) of
        Inl fl \<Rightarrow> Inl fl
      | Inr (e', centroids, assignments) \<Rightarrow> Inr (e', centroids, assignments @ rest))"
proof -
  let ?n = "POINTS_SIZE e"
  have sub: "\<forall>j < m. set (map (assign_perm (sched j)) [0 ..< ?n]) \<subseteq> {..< ?n}"
    using assms(3) valid_schedule_range by fastforce
  have "rel_sum (=) (trailing ?n rest)
     (framework_refine points k sched m (e, cs, a @ rest))
     (framework_refine (take ?n points) k sched m (e, cs, a))"
    using assms(1,2) sub by (intro framework_refine_trailing) simp_all
  then show ?thesis
    by (cases "framework_refine points k sched m (e, cs, a @ rest)";
        cases "framework_refine (take ?n points) k sched m (e, cs, a)")
      (auto simp: trailing_def)
qed

lemma framework_compute_trailing:
  assumes "POINTS_SIZE e \<le> length points" "k \<le> POINTS_SIZE e"
    and "\<forall>j < m. valid_schedule (POINTS_SIZE e) k (sched j)"
  shows "framework_compute sched e points k m cs0 as0 =
     (case framework_compute sched e (take (POINTS_SIZE e) points) k m cs0 as0 of
        Inl fl \<Rightarrow> Inl fl
      | Inr (e', centroids, assignments) \<Rightarrow>
          Inr (e', centroids,
               assignments @ drop (POINTS_SIZE e) (resize (length points) 0 as0)))"
proof -
  let ?n = "POINTS_SIZE e"
  let ?rest = "drop ?n (resize (length points) 0 as0)"
  have seeds: "for_each [0 ..< k] (seed_body points) c
      = for_each [0 ..< k] (seed_body (take ?n points)) c" for c
    using assms(1,2) by (intro for_each_cong) (auto simp: seed_body_def)
  have a: "resize (length points) 0 as0 = resize ?n 0 as0 @ ?rest"
    using take_resize [OF assms(1), of 0 as0] by (metis append_take_drop_id)
  have len: "length (take ?n points) = ?n" using assms(1) by simp
  have loop: "framework_refine points k sched m (e, cs, resize (length points) 0 as0) =
     (case framework_refine (take ?n points) k sched m (e, cs, resize ?n 0 as0) of
        Inl fl \<Rightarrow> Inl fl
      | Inr (e', centroids, assignments) \<Rightarrow> Inr (e', centroids, assignments @ ?rest))" for cs
    using framework_refine_trailing_eq [OF assms(1) _ assms(3), of "resize ?n 0 as0" cs ?rest] a
    by simp
  show ?thesis
  proof (cases "for_each [0 ..< k] (seed_body (take ?n points)) (resize k origin cs0)")
    case (Inl fl)
    then show ?thesis by (simp add: framework_compute_def seeds)
  next
    case (Inr cs)
    then show ?thesis
      unfolding framework_compute_def seeds len by (simp add: loop)
  qed
qed

section \<open>The run that reads on past the end of \<open>points\<close>\<close>

lemma for_each_sim:
  assumes "for_each js f s = Inr s'" "R s t"
    and "\<And>i s t s'. i \<in> set js \<Longrightarrow> R s t \<Longrightarrow> f i s = Inr s' \<Longrightarrow> \<exists>t'. g i t = Inr t' \<and> R s' t'"
  shows "\<exists>t'. for_each js g t = Inr t' \<and> R s' t'"
  using assms
proof (induction js arbitrary: s t)
  case Nil
  then show ?case by auto
next
  case (Cons i js)
  from Cons.prems(1) obtain u where u: "f i s = Inr u" "for_each js f u = Inr s'"
    by (auto simp: and_then_def split: sum.splits)
  from Cons.prems(3) [OF _ Cons.prems(2) u(1)] obtain v where v: "g i t = Inr v" "R u v"
    by auto
  have "\<exists>t'. for_each js g v = Inr t' \<and> R s' t'"
    using u(2) v(2) Cons.prems(3) by (intro Cons.IH) auto
  with v show ?case by simp
qed

lemma unat_asgn_le: "unat (word_of_nat n :: asgn_t) \<le> n"
  by (simp add: unat_of_nat)

lemma set_note_overrun:
  "set (note_overrun points i l) = set l \<union> (if i < length points then {} else {i})"
  by (simp add: note_overrun_def)

lemma overruns_snoc:
  "{j \<in> set (pre @ [i]). length points \<le> j}
     = {j \<in> set pre. length points \<le> j} \<union> (if i < length points then {} else {i})"
  by auto

lemma overruns_upt: "{j \<in> set [0 ..< k]. length points \<le> j} = {length points ..< k}"
  by auto

lemma seed_unchecked_ok:
  "\<exists>cs' log'. for_each [0 ..< k] (seed_body_unchecked beyond points) (cs, log) = Inr (cs', log')
     \<and> length cs' = length cs \<and> set log' = set log \<union> {length points ..< k}"
proof -
  let ?I = "\<lambda>pre (c :: point_t list, l :: nat list).
      length c = length cs \<and> set l = set log \<union> {i \<in> set pre. length points \<le> i}"
  have "\<exists>t. for_each [0 ..< k] (seed_body_unchecked beyond points) (cs, log) = Inr t
      \<and> ?I [0 ..< k] t"
  proof (rule for_each_invariant)
    show "?I [] (cs, log)" by simp
  next
    fix pre i s'
    assume inv: "?I pre s'"
    obtain c l where s': "s' = (c, l)" by (cases s')
    have "seed_body_unchecked beyond points i s'
        = Inr (c[i := read_unchecked beyond points i], note_overrun points i l)"
      by (simp add: s' seed_body_unchecked_def)
    moreover have "?I (pre @ [i]) (c[i := read_unchecked beyond points i], note_overrun points i l)"
      using inv unfolding s' prod.case set_note_overrun overruns_snoc
      by (simp add: Un_assoc)
    ultimately show "\<exists>t. seed_body_unchecked beyond points i s' = Inr t \<and> ?I (pre @ [i]) t"
      by blast
  qed
  then obtain cs' log' where
    "for_each [0 ..< k] (seed_body_unchecked beyond points) (cs, log) = Inr (cs', log')"
    "length cs' = length cs" "set log' = set log \<union> {i \<in> set [0 ..< k]. length points \<le> i}"
    by blast
  then show ?thesis unfolding overruns_upt by blast
qed

lemma assign_unchecked_ok:
  assumes cs: "cs \<noteq> []" "length cs = k" and e: "k \<le> length (temp_assignments e)"
  shows "\<exists>e' a' log'.
      for_each js (framework_assign_body_unchecked beyond points cs iters) (e, a, log)
        = Inr (e', a', log')
      \<and> length (temp_assignments e') = length (temp_assignments e)
      \<and> POINTS_SIZE e' = POINTS_SIZE e
      \<and> set log' = set log \<union> {i \<in> set js. length points \<le> i}"
proof -
  let ?I = "\<lambda>pre (u :: framework_KMeans, b :: asgn_t list, l :: nat list).
      length (temp_assignments u) = length (temp_assignments e)
      \<and> POINTS_SIZE u = POINTS_SIZE e
      \<and> set l = set log \<union> {i \<in> set pre. length points \<le> i}"
  have "\<exists>t. for_each js (framework_assign_body_unchecked beyond points cs iters) (e, a, log)
          = Inr t \<and> ?I js t"
  proof (rule for_each_invariant)
    show "?I [] (e, a, log)" by simp
  next
    fix pre i s'
    assume inv: "?I pre s'"
    obtain u b l where s': "s' = (u, b, l)" by (cases s')
    let ?p = "read_unchecked beyond points i"
    have "nearest_index ?p cs < k"
      using nearest_index_props(1) [OF cs(1)] cs(2) by simp
    then have "unat (word_of_nat (nearest_index ?p cs) :: asgn_t) < length (temp_assignments u)"
      using unat_asgn_le [of "nearest_index ?p cs"] inv s' e by simp
    then have "framework_assign_body_unchecked beyond points cs iters i s'
        = Inr (u\<lparr>temp_assignments := (temp_assignments u)
                   [unat (word_of_nat (nearest_index ?p cs) :: asgn_t) :=
                      temp_assignments u ! unat (word_of_nat (nearest_index ?p cs) :: asgn_t)
                        @ [?p]]\<rparr>,
               if iters = 0 then b[i := word_of_nat (nearest_index ?p cs)] else b,
               note_overrun points i l)"
      using cs by (simp add: s' framework_assign_body_unchecked_def getNearestCluster_eq Let_def)
    moreover have "?I (pre @ [i])
        (u\<lparr>temp_assignments := (temp_assignments u)
                   [unat (word_of_nat (nearest_index ?p cs) :: asgn_t) :=
                      temp_assignments u ! unat (word_of_nat (nearest_index ?p cs) :: asgn_t)
                        @ [?p]]\<rparr>,
         if iters = 0 then b[i := word_of_nat (nearest_index ?p cs)] else b,
         note_overrun points i l)"
      using inv unfolding s' prod.case set_note_overrun overruns_snoc
      by (simp add: Un_assoc)
    ultimately show "\<exists>t. framework_assign_body_unchecked beyond points cs iters i s' = Inr t
        \<and> ?I (pre @ [i]) t"
      by blast
  qed
  then show ?thesis by auto
qed

lemma update_keeps_length:
  assumes "set us \<subseteq> {..< length (temp_assignments e)}"
  shows "\<exists>cs'. for_each us (framework_update_body e shapes) cs = Inr cs' \<and> length cs' = length cs"
proof -
  let ?I = "\<lambda>(pre :: nat list) (c :: point_t list). length c = length cs"
  have "\<exists>t. for_each us (framework_update_body e shapes) cs = Inr t \<and> ?I us t"
  proof (rule for_each_invariant)
    show "?I [] cs" by simp
  next
    fix pre i s'
    assume "?I pre s'" "i \<in> set us"
    then show "\<exists>t. framework_update_body e shapes i s' = Inr t \<and> ?I (pre @ [i]) t"
      using assms by (auto simp: framework_update_body_def Let_def)
  qed
  then show ?thesis by auto
qed

lemma iteration_unchecked_ok:
  assumes cs: "cs \<noteq> []" "length cs = k" and e: "k \<le> length (temp_assignments e)"
    and s: "valid_schedule (POINTS_SIZE e) k s"
  shows "\<exists>e' cs' a' log'.
      framework_iteration_unchecked beyond points k iters s (e, cs, a, log)
        = Inr (e', cs', a', log')
      \<and> cs' \<noteq> [] \<and> length cs' = k
      \<and> length (temp_assignments e') = length (temp_assignments e)
      \<and> POINTS_SIZE e' = POINTS_SIZE e
      \<and> set log' = set log \<union> {length points ..< POINTS_SIZE e}"
proof -
  let ?js = "map (assign_perm s) [0 ..< POINTS_SIZE e]"
  let ?us = "map (update_perm s) [0 ..< k]"
  have js: "set ?js = {0 ..< POINTS_SIZE e}" by (rule valid_schedule_range [OF s])
  have us: "set ?us = {0 ..< k}"
    using s by (metis valid_schedule_def mset_eq_setD set_upt)
  from framework_clear_ok [OF e] obtain e1 where
    e1: "for_each [0 ..< k] framework_clear_body e = Inr e1"
    "length (temp_assignments e1) = length (temp_assignments e)"
    "POINTS_SIZE e1 = POINTS_SIZE e"
    by blast
  have "k \<le> length (temp_assignments e1)" using e e1 by simp
  from assign_unchecked_ok [OF cs this, of ?js beyond points iters a log] obtain e2 a2 log2 where
    e2: "for_each ?js (framework_assign_body_unchecked beyond points cs iters) (e1, a, log)
        = Inr (e2, a2, log2)"
    "length (temp_assignments e2) = length (temp_assignments e1)"
    "POINTS_SIZE e2 = POINTS_SIZE e1"
    "set log2 = set log \<union> {i \<in> set ?js. length points \<le> i}"
    by blast
  have "{i \<in> set ?js. length points \<le> i} = {length points ..< POINTS_SIZE e}"
    unfolding js by auto
  then have log2: "set log2 = set log \<union> {length points ..< POINTS_SIZE e}"
    using e2(4) by simp
  have "set ?us \<subseteq> {..< length (temp_assignments e2)}"
    unfolding us using e e1 e2 by auto
  from update_keeps_length [OF this, of "reduce_shape s" cs] obtain cs' where
    cs': "for_each ?us (framework_update_body e2 (reduce_shape s)) cs = Inr cs'"
    "length cs' = length cs"
    by blast
  have "cs' \<noteq> []" using cs cs'(2) by auto
  then show ?thesis
    using e1 e2(1-3) log2 cs' cs(2)
    by (simp add: framework_iteration_unchecked_def parallel_for_def)
qed

lemma refine_unchecked_ok:
  assumes "cs \<noteq> []" "length cs = k" "k \<le> length (temp_assignments e)"
    and "\<forall>j < m. valid_schedule (POINTS_SIZE e) k (sched j)"
  shows "\<exists>e' cs' a' log'.
      framework_refine_unchecked beyond points k sched m (e, cs, a, log)
        = Inr (e', cs', a', log')
      \<and> set log' = set log \<union> (if m = 0 then {} else {length points ..< POINTS_SIZE e})"
  using assms
proof (induction m arbitrary: e cs a log)
  case 0
  show ?case by simp
next
  case (Suc m)
  have "valid_schedule (POINTS_SIZE e) k (sched m)" using Suc.prems(4) by simp
  from iteration_unchecked_ok [OF Suc.prems(1-3) this, of beyond points m a log]
  obtain e1 cs1 a1 log1 where
    it: "framework_iteration_unchecked beyond points k m (sched m) (e, cs, a, log)
        = Inr (e1, cs1, a1, log1)"
    "cs1 \<noteq> []" "length cs1 = k"
    "length (temp_assignments e1) = length (temp_assignments e)"
    "POINTS_SIZE e1 = POINTS_SIZE e"
    "set log1 = set log \<union> {length points ..< POINTS_SIZE e}"
    by blast
  have "\<exists>e' cs' a' log'.
      framework_refine_unchecked beyond points k sched m (e1, cs1, a1, log1)
        = Inr (e', cs', a', log')
      \<and> set log' = set log1 \<union> (if m = 0 then {} else {length points ..< POINTS_SIZE e1})"
    using it Suc.prems by (intro Suc.IH) simp_all
  then show ?case
    using it by auto
qed

lemma compute_unchecked_ok:
  assumes "1 \<le> k" "k \<le> length (temp_assignments e)"
    and "\<forall>j < m. valid_schedule (POINTS_SIZE e) k (sched j)"
  shows "\<exists>e' cs' a' log'.
      framework_compute_unchecked beyond sched e points k m cs0 as0 = Inr (e', cs', a', log')
      \<and> set log' = {length points ..< k}
            \<union> (if m = 0 then {} else {length points ..< POINTS_SIZE e})"
proof -
  from seed_unchecked_ok [of k beyond points "resize k origin cs0" "[]"] obtain cs log0 where
    seeds: "for_each [0 ..< k] (seed_body_unchecked beyond points) (resize k origin cs0, [])
        = Inr (cs, log0)"
    "length cs = k" "set log0 = {length points ..< k}"
    by auto
  have "cs \<noteq> []" using seeds(2) assms(1) by auto
  from refine_unchecked_ok [OF this seeds(2) assms(2,3), of beyond points
      "resize (length points) 0 as0" log0]
  show ?thesis
    using seeds by (auto simp: framework_compute_unchecked_def)
qed

lemma assign_returns_in_range:
  "framework_assign_body points cs iters i s = Inr t \<Longrightarrow> i < length points"
  by (cases s) (simp add: framework_assign_body_def split: if_splits)

lemma assign_unchecked_in_range:
  assumes "i < length points"
  shows "framework_assign_body_unchecked beyond points cs iters i (e, a, log)
     = map_sum id (\<lambda>(e', a'). (e', a', log)) (framework_assign_body points cs iters i (e, a))"
  using assms
  by (cases "getNearestCluster (points ! i) cs")
    (simp_all add: framework_assign_body_def framework_assign_body_unchecked_def
      read_unchecked_def note_overrun_def Let_def)

text \<open>Where the run that stops at an overrun returns, the run that reads on returns
  the same and has nothing on record.\<close>
lemma unchecked_iteration_agrees:
  assumes "framework_iteration points k iters s (e, cs, a) = Inr (e', cs', a')"
  shows "framework_iteration_unchecked beyond points k iters s (e, cs, a, log)
     = Inr (e', cs', a', log)"
proof -
  from assms obtain e1 e2 a2 where
    e1: "for_each [0 ..< k] framework_clear_body e = Inr e1"
    and e2: "for_each (map (assign_perm s) [0 ..< POINTS_SIZE e1])
              (framework_assign_body points cs iters) (e1, a) = Inr (e2, a2)"
    and up: "for_each (map (update_perm s) [0 ..< k])
              (framework_update_body e2 (reduce_shape s)) cs = Inr cs'"
    and eq: "e' = e2" "a' = a2"
    by (auto simp: framework_iteration_def parallel_for_def and_then_def split: sum.splits)
  let ?R = "\<lambda>(u :: framework_KMeans, b :: asgn_t list) (v :: framework_KMeans, c :: asgn_t list, l :: nat list).
      v = u \<and> c = b \<and> l = log"
  have "\<exists>t'. for_each (map (assign_perm s) [0 ..< POINTS_SIZE e1])
          (framework_assign_body_unchecked beyond points cs iters) (e1, a, log) = Inr t'
        \<and> ?R (e2, a2) t'"
    using e2
  proof (rule for_each_sim)
    show "?R (e1, a) (e1, a, log)" by simp
  next
    fix i u t u'
    assume "?R u t" "framework_assign_body points cs iters i u = Inr u'"
    then show "\<exists>t'. framework_assign_body_unchecked beyond points cs iters i t = Inr t'
        \<and> ?R u' t'"
      using assign_returns_in_range [of points cs iters i u u']
        assign_unchecked_in_range [of i points beyond cs iters "fst u" "snd u" log]
      by (cases u; cases u'; cases t) auto
  qed
  then have "for_each (map (assign_perm s) [0 ..< POINTS_SIZE e1])
          (framework_assign_body_unchecked beyond points cs iters) (e1, a, log)
      = Inr (e2, a2, log)"
    by auto
  then show ?thesis
    using e1 up eq by (simp add: framework_iteration_unchecked_def parallel_for_def)
qed

lemma unchecked_refine_agrees:
  assumes "framework_refine points k sched m (e, cs, a) = Inr (e', cs', a')"
  shows "framework_refine_unchecked beyond points k sched m (e, cs, a, log)
     = Inr (e', cs', a', log)"
  using assms
proof (induction m arbitrary: e cs a)
  case 0
  then show ?case by simp
next
  case (Suc m)
  then obtain e1 cs1 a1 where
    it: "framework_iteration points k m (sched m) (e, cs, a) = Inr (e1, cs1, a1)"
    and rest: "framework_refine points k sched m (e1, cs1, a1) = Inr (e', cs', a')"
    by (auto simp: and_then_def split: sum.splits)
  show ?case
    using unchecked_iteration_agrees [OF it, of beyond log] Suc.IH [OF rest] by simp
qed

lemma unchecked_compute_agrees:
  assumes "framework_compute sched e points k m cs0 as0 = Inr (e', cs', a')"
  shows "framework_compute_unchecked beyond sched e points k m cs0 as0 = Inr (e', cs', a', [])"
proof -
  from assms obtain cs where
    seeds: "for_each [0 ..< k] (seed_body points) (resize k origin cs0) = Inr cs"
    and loop: "framework_refine points k sched m (e, cs, resize (length points) 0 as0)
        = Inr (e', cs', a')"
    by (auto simp: framework_compute_def and_then_def split: sum.splits)
  let ?R = "\<lambda>(c :: point_t list) (c' :: point_t list, l :: nat list). c' = c \<and> l = []"
  have "\<exists>t'. for_each [0 ..< k] (seed_body_unchecked beyond points) (resize k origin cs0, [])
          = Inr t' \<and> ?R cs t'"
    using seeds
  proof (rule for_each_sim)
    show "?R (resize k origin cs0) (resize k origin cs0, [])" by simp
  next
    fix i u t u'
    assume "?R u t" "seed_body points i u = Inr u'"
    then show "\<exists>t'. seed_body_unchecked beyond points i t = Inr t' \<and> ?R u' t'"
      by (cases t)
        (auto simp: seed_body_def seed_body_unchecked_def read_unchecked_def note_overrun_def
          split: if_splits)
  qed
  then have "for_each [0 ..< k] (seed_body_unchecked beyond points) (resize k origin cs0, [])
      = Inr (cs, [])"
    by auto
  then show ?thesis
    using unchecked_refine_agrees [OF loop, of beyond "[]"]
    by (simp add: framework_compute_unchecked_def)
qed

section \<open>C10: the recorded point count against \<open>points.size()\<close>\<close>

text \<open>
  C10, as stated, fails for a call with an iteration count of 0: the loop over the recorded
  count never runs. With 3 recorded by \<open>init\<close> and two points passed, \<open>compute\<close> returns the
  seed and reads nothing past the end of the vector.
\<close>
theorem no_iteration_no_overrun:
  "POINTS_SIZE (framework_init \<lparr>temp_assignments = [], POINTS_SIZE = 0\<rparr> 3 1 0) = 3
   \<and> length twin_points = 2
   \<and> framework_compute (\<lambda>j. in_order)
        (framework_init \<lparr>temp_assignments = [], POINTS_SIZE = 0\<rparr> 3 1 0) twin_points 1 0 [] []
     = Inr (\<lparr>temp_assignments = [[]], POINTS_SIZE = 3\<rparr>, [\<lparr>x = 0, y = 0\<rparr>], [0, 0])
   \<and> framework_compute_unchecked (\<lambda>i. origin) (\<lambda>j. in_order)
        (framework_init \<lparr>temp_assignments = [], POINTS_SIZE = 0\<rparr> 3 1 0) twin_points 1 0 [] []
     = Inr (\<lparr>temp_assignments = [[]], POINTS_SIZE = 3\<rparr>, [\<lparr>x = 0, y = 0\<rparr>], [0, 0], [])"
  by code_simp

text \<open>
  C10, amended. The concurrent engine's \<open>compute\<close> iterates over the point count recorded by
  the last \<open>init\<close> call, not over \<open>points.size()\<close>. For every call with \<open>k \<ge> 1\<close> accumulators
  in place, whatever lies behind the buffer, the run that reads on returns, and the indices
  past the end at which it has read \<open>points\<close> are those from \<open>points.size()\<close> up to \<open>k\<close> (the
  seeds) and, when at least one iteration runs, those from \<open>points.size()\<close> up to the
  recorded count: with \<open>iters \<ge> 1\<close> and \<open>points.size()\<close> smaller than the recorded count,
  points past the end of the vector are accessed. For every call with the recorded count at
  most \<open>points.size()\<close>, the trailing points are neither assigned nor accumulated: from any
  centroids the refinement loop returns the engine and the centroids of the loop run on the
  points before them and leaves the assignment slots of the trailing points as they were,
  so that, when \<open>k\<close> is at most the recorded count and no trailing point is a seed,
  \<open>compute\<close> returns the engine and the centroids of \<open>compute\<close> on the points before them
  and the trailing slots as \<open>resize\<close> left them. Equal counts are the precondition for safe,
  complete operation.
\<close>
theorem recorded_count_decides_range:
  assumes "\<forall>j < iters. valid_schedule (POINTS_SIZE e) k (sched j)"
  shows "(1 \<le> k \<and> k \<le> length (temp_assignments e) \<longrightarrow>
        (\<exists>e' centroids assignments overruns.
           framework_compute_unchecked beyond sched e points k iters cs0 as0
             = Inr (e', centroids, assignments, overruns) \<and>
           set overruns = {length points ..< k}
             \<union> (if iters = 0 then {} else {length points ..< POINTS_SIZE e}) \<and>
           (1 \<le> iters \<and> length points < POINTS_SIZE e \<longrightarrow> length points \<in> set overruns)))
     \<and> (POINTS_SIZE e \<le> length points \<longrightarrow>
        (\<forall>centroids assignments rest. length assignments = POINTS_SIZE e \<longrightarrow>
           framework_refine points k sched iters (e, centroids, assignments @ rest) =
             (case framework_refine (take (POINTS_SIZE e) points) k sched iters
                     (e, centroids, assignments) of
                Inl fl \<Rightarrow> Inl fl
              | Inr (e', centroids', assignments') \<Rightarrow>
                  Inr (e', centroids', assignments' @ rest))) \<and>
        (k \<le> POINTS_SIZE e \<longrightarrow>
           framework_compute sched e points k iters cs0 as0 =
             (case framework_compute sched e (take (POINTS_SIZE e) points) k iters cs0 as0 of
                Inl fl \<Rightarrow> Inl fl
              | Inr (e', centroids, assignments) \<Rightarrow>
                  Inr (e', centroids,
                       assignments @ drop (POINTS_SIZE e) (resize (length points) 0 as0)))))"
proof (intro conjI impI allI)
  assume "1 \<le> k \<and> k \<le> length (temp_assignments e)"
  then obtain e' cs' a' log' where
    r: "framework_compute_unchecked beyond sched e points k iters cs0 as0
        = Inr (e', cs', a', log')"
    "set log' = {length points ..< k}
        \<union> (if iters = 0 then {} else {length points ..< POINTS_SIZE e})"
    using compute_unchecked_ok [OF _ _ assms, of beyond points cs0 as0] by blast
  have "length points \<in> set log'" if "1 \<le> iters \<and> length points < POINTS_SIZE e"
    using that r(2) by auto
  with r show "\<exists>e' centroids assignments overruns.
           framework_compute_unchecked beyond sched e points k iters cs0 as0
             = Inr (e', centroids, assignments, overruns) \<and>
           set overruns = {length points ..< k}
             \<union> (if iters = 0 then {} else {length points ..< POINTS_SIZE e}) \<and>
           (1 \<le> iters \<and> length points < POINTS_SIZE e \<longrightarrow> length points \<in> set overruns)"
    by blast
next
  fix centroids :: "point_t list" and assignments rest :: "asgn_t list"
  assume "POINTS_SIZE e \<le> length points" "length assignments = POINTS_SIZE e"
  then show "framework_refine points k sched iters (e, centroids, assignments @ rest) =
             (case framework_refine (take (POINTS_SIZE e) points) k sched iters
                     (e, centroids, assignments) of
                Inl fl \<Rightarrow> Inl fl
              | Inr (e', centroids', assignments') \<Rightarrow>
                  Inr (e', centroids', assignments' @ rest))"
    using assms by (intro framework_refine_trailing_eq) simp_all
next
  assume "POINTS_SIZE e \<le> length points" "k \<le> POINTS_SIZE e"
  then show "framework_compute sched e points k iters cs0 as0 =
          (case framework_compute sched e (take (POINTS_SIZE e) points) k iters cs0 as0 of
             Inl fl \<Rightarrow> Inl fl
           | Inr (e', centroids, assignments) \<Rightarrow>
               Inr (e', centroids,
                    assignments @ drop (POINTS_SIZE e) (resize (length points) 0 as0)))"
    using assms by (intro framework_compute_trailing) simp_all
qed

theorem recorded_count_decides_range_witness:
  "valid_schedule 5 2 in_order \<and> valid_schedule 3 2 in_order
   \<and> (\<exists>e' centroids assignments overruns.
        framework_compute_unchecked (\<lambda>i. origin) (\<lambda>j. in_order)
          (framework_init \<lparr>temp_assignments = [], POINTS_SIZE = 0\<rparr> 5 2 1) scenario_points 2 1 [] []
          = Inr (e', centroids, assignments, overruns)
        \<and> set overruns = {4})
   \<and> framework_compute (\<lambda>j. in_order)
        (framework_init \<lparr>temp_assignments = [], POINTS_SIZE = 0\<rparr> 3 2 1) scenario_points 2 1 [] []
       = (case framework_compute (\<lambda>j. in_order)
                 (framework_init \<lparr>temp_assignments = [], POINTS_SIZE = 0\<rparr> 3 2 1)
                 (take 3 scenario_points) 2 1 [] [] of
            Inl fl \<Rightarrow> Inl fl
          | Inr (e', centroids, assignments) \<Rightarrow>
              Inr (e', centroids, assignments @ drop 3 (resize (length scenario_points) 0 [])))"
proof -
  let ?e5 = "framework_init \<lparr>temp_assignments = [], POINTS_SIZE = 0\<rparr> 5 2 1"
  let ?e3 = "framework_init \<lparr>temp_assignments = [], POINTS_SIZE = 0\<rparr> 3 2 1"
  have v5: "\<forall>j < (1::nat). valid_schedule (POINTS_SIZE ?e5) 2 in_order"
    and v3: "\<forall>j < (1::nat). valid_schedule (POINTS_SIZE ?e3) 2 in_order"
    by (simp_all add: valid_in_order)
  have h5: "(1::nat) \<le> 2 \<and> 2 \<le> length (temp_assignments ?e5)"
    by simp
  have h3: "POINTS_SIZE ?e3 \<le> length scenario_points" "2 \<le> POINTS_SIZE ?e3"
    by (simp_all add: scenario_points_def)
  have len: "length scenario_points = 4" by (simp add: scenario_points_def)
  have p5: "POINTS_SIZE ?e5 = 5" and p3: "POINTS_SIZE ?e3 = 3" by simp_all
  have "{4 ..< 5 :: nat} = {4}" by auto
  then have s5: "{4 ..< 2 :: nat} \<union> (if (1::nat) = 0 then {} else {4 ..< 5}) = {4}"
    by simp
  note r5 = recorded_count_decides_range [OF v5, where beyond = "\<lambda>i. origin"
      and points = scenario_points and ?cs0.0 = "[]" and ?as0.0 = "[]", THEN conjunct1, THEN mp,
      OF h5, unfolded len p5 s5]
  have a: "\<exists>e' centroids assignments overruns.
        framework_compute_unchecked (\<lambda>i. origin) (\<lambda>j. in_order) ?e5 scenario_points 2 1 [] []
          = Inr (e', centroids, assignments, overruns)
        \<and> set overruns = {4}"
    using r5 by blast
  note r3 = recorded_count_decides_range [OF v3, where beyond = "\<lambda>i. origin"
      and points = scenario_points and ?cs0.0 = "[]" and ?as0.0 = "[]", THEN conjunct2, THEN mp,
      OF h3(1), THEN conjunct2, THEN mp, OF h3(2), unfolded p3]
  show ?thesis
    using valid_in_order [of 5 2] valid_in_order [of 3 2] a r3 by (intro conjI)
qed

end
